theory Spec2Isabelle
  imports Main "HOL-Library.Word"
begin

section \<open>Token package: instants, kinds, errors, tokens\<close>

text \<open>
  An instant (Go \<^verbatim>\<open>time.Time\<close>) is the number of nanoseconds since Go's zero instant, so
  \<^verbatim>\<open>IsZero\<close> is equality with 0; a \<^verbatim>\<open>time.Duration\<close> is a number of nanoseconds.
  Both are unbounded integers here; where the code subtracts two instants the 64-bit limits of
  a duration are written out (\<open>Sub\<close> below).  The clock reading \<^verbatim>\<open>time.Now()\<close> is an argument of
  every operation that reads it.
\<close>

type_synonym Time = int
type_synonym Duration = int

definition Nanosecond :: Duration where "Nanosecond = 1"
definition Microsecond :: Duration where "Microsecond = 1000 * Nanosecond"
definition Millisecond :: Duration where "Millisecond = 1000 * Microsecond"
definition Second :: Duration where "Second = 1000 * Millisecond"
definition Minute :: Duration where "Minute = 60 * Second"
definition Hour :: Duration where "Hour = 60 * Minute"

text \<open>
  \<^verbatim>\<open>type Type int\<close> with \<^verbatim>\<open>TypeLink = iota\<close> and \<^verbatim>\<open>TypeCode\<close>: the kind of a token is an
  integer, 0 for links and 1 for codes; any other integer is a value of the type as well.
\<close>

type_synonym Type = int

definition TypeLink :: Type where "TypeLink = 0"
definition TypeCode :: Type where "TypeCode = 1"

text \<open>
  Errors are values.  The sentinels of the package keep their names; \<open>Errorf msg e\<close> is
  \<^verbatim>\<open>fmt.Errorf("msg: %w", e)\<close>, which wraps \<open>e\<close>; \<open>ErrorString\<close> is an error made from a text
  alone; \<open>Canceled\<close> and \<open>DeadlineExceeded\<close> are what \<^verbatim>\<open>ctx.Err()\<close> returns for a context that
  is done; \<open>redis_Nil\<close> is the client's reply for a missing key and \<open>redis_Failure\<close> any other
  failure of a command.  \<open>TokenExpiredError\<close> carries TokenValue, TokenType and ExpiredAt.
\<close>

datatype error =
    ErrTokenNotFound
  | ErrInvalidToken
  | ErrInvalidTokenType
  | ErrInvalidTokenKeyType
  | ErrTokenNil
  | ErrEmptyTokenValue
  | ErrEmptyValidationID
  | TokenExpiredError string Type Time
  | Canceled
  | DeadlineExceeded
  | redis_Nil
  | redis_Failure string
  | ErrorString string
  | Errorf string error

text \<open>\<^verbatim>\<open>errors.Is(err, target)\<close>: \<open>target\<close> is \<open>err\<close> or something \<open>err\<close> wraps.\<close>

fun errors_Is :: "error \<Rightarrow> error \<Rightarrow> bool" where
  "errors_Is (Errorf msg e) target = (Errorf msg e = target \<or> errors_Is e target)"
| "errors_Is e target = (e = target)"

text \<open>\<^verbatim>\<open>IsTokenExpiredError\<close>: \<^verbatim>\<open>errors.As\<close> finds a \<open>TokenExpiredError\<close> in the chain.\<close>

fun IsTokenExpiredError :: "error \<Rightarrow> bool" where
  "IsTokenExpiredError (TokenExpiredError v ty at) = True"
| "IsTokenExpiredError (Errorf msg e) = IsTokenExpiredError e"
| "IsTokenExpiredError e = False"

text \<open>The value of \<^verbatim>\<open>ctx.Err()\<close>: \<open>None\<close> for a live context.\<close>

type_synonym ctx = "error option"

record Token =
  Value :: string
  Type :: Type
  CreatedAt :: Time
  ValidUntil :: Time
  ValidationID :: string

definition New :: "Time \<Rightarrow> string \<Rightarrow> Type \<Rightarrow> string \<Rightarrow> Duration \<Rightarrow> Token" where
  "New now val tokenType validationID ttl =
     \<lparr>Value = val, Type = tokenType, CreatedAt = now, ValidUntil = now + ttl,
      ValidationID = validationID\<rparr>"

definition IsExpired :: "Time \<Rightarrow> Token \<Rightarrow> bool" where
  "IsExpired now t = (now > ValidUntil t)"

text \<open>
  \<^verbatim>\<open>t.Sub(u)\<close> is the duration \<open>t - u\<close>, or the least or the greatest \<^verbatim>\<open>time.Duration\<close> (a 64-bit
  number of nanoseconds, about 292 years) when the difference does not fit; \<^verbatim>\<open>time.Until(t)\<close> is
  \<^verbatim>\<open>t.Sub(time.Now())\<close>.
\<close>

definition minDuration :: Duration where "minDuration = - (2 ^ 63)"
definition maxDuration :: Duration where "maxDuration = 2 ^ 63 - 1"

definition Sub :: "Time \<Rightarrow> Time \<Rightarrow> Duration" where
  "Sub t u =
     (if t - u < minDuration then minDuration
      else if maxDuration < t - u then maxDuration
      else t - u)"

definition Until :: "Time \<Rightarrow> Time \<Rightarrow> Duration" where
  "Until now t = Sub t now"

text \<open>
  \<^verbatim>\<open>Validate\<close> (exported, used by the storage packages) and \<^verbatim>\<open>validateToken\<close> (used by
  \<^verbatim>\<open>MemoryStorage\<close> and \<^verbatim>\<open>RedisStorage\<close> of package token).  The argument is a pointer, so it
  may be nil: \<open>None\<close>.  The result is the error, \<open>None\<close> for nil.
\<close>

definition Validate :: "Token option \<Rightarrow> error option" where
  "Validate token =
     (case token of
        None \<Rightarrow> Some ErrTokenNil
      | Some t \<Rightarrow>
          if Value t = [] then Some ErrEmptyTokenValue
          else if ValidationID t = [] then Some ErrEmptyValidationID
          else if ValidUntil t = 0 then Some (Errorf ''missing expiration time'' ErrInvalidToken)
          else None)"

definition validateToken :: "Token option \<Rightarrow> error option" where
  "validateToken token =
     (case token of
        None \<Rightarrow> Some ErrTokenNil
      | Some t \<Rightarrow>
          if Value t = [] then Some ErrEmptyTokenValue
          else if ValidationID t = [] then Some ErrEmptyValidationID
          else None)"

section \<open>Generator\<close>

record Generator =
  linkTokenLength :: int
  codeTokenLength :: int
  codeCharset :: string

definition DefaultLinkTokenLength :: int where "DefaultLinkTokenLength = 32"
definition DefaultCodeTokenLength :: int where "DefaultCodeTokenLength = 4"
definition DefaultCodeCharset :: string where "DefaultCodeCharset = ''0123456789''"

definition NewGenerator :: Generator where
  "NewGenerator =
     \<lparr>linkTokenLength = DefaultLinkTokenLength, codeTokenLength = DefaultCodeTokenLength,
      codeCharset = DefaultCodeCharset\<rparr>"

definition WithLinkTokenLength :: "Generator \<Rightarrow> int \<Rightarrow> Generator" where
  "WithLinkTokenLength g len = g\<lparr>linkTokenLength := len\<rparr>"

definition WithCodeTokenLength :: "Generator \<Rightarrow> int \<Rightarrow> Generator" where
  "WithCodeTokenLength g len = g\<lparr>codeTokenLength := len\<rparr>"

definition WithCodeCharset :: "Generator \<Rightarrow> string \<Rightarrow> Generator" where
  "WithCodeCharset g charset = (if charset \<noteq> [] then g\<lparr>codeCharset := charset\<rparr> else g)"

text \<open>A chain of configuration calls on a generator, applied left to right.\<close>

datatype generator_call =
    CallWithLinkTokenLength int
  | CallWithCodeTokenLength int
  | CallWithCodeCharset string

fun configure1 :: "Generator \<Rightarrow> generator_call \<Rightarrow> Generator" where
  "configure1 g (CallWithLinkTokenLength n) = WithLinkTokenLength g n"
| "configure1 g (CallWithCodeTokenLength n) = WithCodeTokenLength g n"
| "configure1 g (CallWithCodeCharset cs) = WithCodeCharset g cs"

fun configure :: "Generator \<Rightarrow> generator_call list \<Rightarrow> Generator" where
  "configure g [] = g"
| "configure g (c # cs) = configure (configure1 g c) cs"

text \<open>
  The entropy source \<^verbatim>\<open>crypto/rand\<close>: a read either fails or fills the whole slice, byte \<open>i\<close>
  of the slice being \<open>f i\<close> for an arbitrary \<open>f\<close>.
\<close>

datatype entropy = EntropyFails error | EntropyBytes "nat \<Rightarrow> 8 word"

definition rand_Read :: "entropy \<Rightarrow> nat \<Rightarrow> error + 8 word list" where
  "rand_Read src n =
     (case src of EntropyFails e \<Rightarrow> Inl e | EntropyBytes f \<Rightarrow> Inr (map f [0..<n]))"

text \<open>
  A generator call returns a string, returns an error, or panics at run time:
  \<^verbatim>\<open>make([]byte, n)\<close> panics (\<^verbatim>\<open>makeslice: len out of range\<close>) for a negative \<open>n\<close> and for an
  \<open>n\<close> beyond the allocation limit of the runtime, and \<^verbatim>\<open>int(b) % charsetLength\<close> panics when
  the divisor is 0.
\<close>

datatype panic = MakeSliceLenOutOfRange | IntegerDivideByZero

text \<open>
  The allocation limit \<^verbatim>\<open>maxAlloc\<close> of the Go runtime: \<open>2\<^sup>4\<^sup>8\<close> bytes on the 64-bit platforms
  (\<^verbatim>\<open>heapAddrBits = 48\<close>).  \<^verbatim>\<open>makeslice\<close> panics when the length is negative or the slice
  would take more than \<^verbatim>\<open>maxAlloc\<close> bytes; the elements are bytes here, so that is when the
  length is above \<^verbatim>\<open>maxAlloc\<close>.  A slice within the limit is taken to be allocated: the machine
  has the memory for it.
\<close>

definition maxAlloc :: int where "maxAlloc = 2 ^ 48"

definition makeslice :: "int \<Rightarrow> panic + nat" where
  "makeslice len =
     (if len < 0 \<or> maxAlloc < len then Inl MakeSliceLenOutOfRange else Inr (nat len))"

datatype 'a go_result = Panics panic | Fails error | Returns 'a

text \<open>
  The loop of \<^verbatim>\<open>GenerateCodeToken\<close> over the random bytes: each byte selects
  \<^verbatim>\<open>codeCharset[int(b) % charsetLength]\<close>.  A Go string is indexed by byte, as \<open>string\<close> is.
\<close>

fun code_of_bytes :: "string \<Rightarrow> 8 word list \<Rightarrow> panic + string" where
  "code_of_bytes charset [] = Inr []"
| "code_of_bytes charset (b # bs) =
     (if length charset = 0 then Inl IntegerDivideByZero
      else case code_of_bytes charset bs of
             Inl p \<Rightarrow> Inl p
           | Inr code \<Rightarrow> Inr (charset ! (unat b mod length charset) # code))"

definition GenerateCodeToken :: "Generator \<Rightarrow> entropy \<Rightarrow> string go_result" where
  "GenerateCodeToken g src =
     (case makeslice (codeTokenLength g) of
        Inl p \<Rightarrow> Panics p
      | Inr n \<Rightarrow>
          (case rand_Read src n of
             Inl e \<Rightarrow> Fails (Errorf ''failed to generate random bytes'' e)
           | Inr bytes \<Rightarrow>
               (case code_of_bytes (codeCharset g) bytes of
                  Inl p \<Rightarrow> Panics p
                | Inr code \<Rightarrow> Returns code)))"

text \<open>
  \<^verbatim>\<open>base64.RawURLEncoding.EncodeToString\<close>: three bytes give four characters of the URL-safe
  alphabet, a rest of one or two bytes gives two or three, and nothing is padded.
\<close>

definition encodeURL :: string where
  "encodeURL = ''ABCDEFGHIJKLMNOPQRSTUVWXYZabcdefghijklmnopqrstuvwxyz0123456789-_''"

fun EncodeToString :: "8 word list \<Rightarrow> string" where
  "EncodeToString (a # b # c # rest) =
     [encodeURL ! (unat a div 4),
      encodeURL ! ((unat a mod 4) * 16 + unat b div 16),
      encodeURL ! ((unat b mod 16) * 4 + unat c div 64),
      encodeURL ! (unat c mod 64)] @ EncodeToString rest"
| "EncodeToString [a, b] =
     [encodeURL ! (unat a div 4),
      encodeURL ! ((unat a mod 4) * 16 + unat b div 16),
      encodeURL ! ((unat b mod 16) * 4)]"
| "EncodeToString [a] =
     [encodeURL ! (unat a div 4),
      encodeURL ! ((unat a mod 4) * 16)]"
| "EncodeToString [] = []"

definition GenerateLinkToken :: "Generator \<Rightarrow> entropy \<Rightarrow> string go_result" where
  "GenerateLinkToken g src =
     (case makeslice (linkTokenLength g) of
        Inl p \<Rightarrow> Panics p
      | Inr n \<Rightarrow>
          (case rand_Read src n of
             Inl e \<Rightarrow> Fails (Errorf ''failed to generate random bytes'' e)
           | Inr bytes \<Rightarrow> Returns (EncodeToString bytes)))"

section \<open>In-memory storage (package memory)\<close>

text \<open>
  \<^verbatim>\<open>tokenKey{value, typ}\<close> is a pair.  The two \<^verbatim>\<open>sync.Map\<close>s of \<^verbatim>\<open>Storage\<close> are finite maps:
  \<open>tokens\<close> from key to token and \<open>validationID\<close> from validation ID to the slice of keys stored
  under it.  The maps hold values of one type only, so the branches taken when a type
  assertion fails (\<^verbatim>\<open>ErrInvalidTokenType\<close>, \<^verbatim>\<open>ErrInvalidTokenKeyType\<close>) have no state that
  reaches them.  Operations run one after the other; the mutex and the logger have no effect on
  results.  Every operation returns its error (\<open>None\<close> for nil) and the storage it leaves.  The
  maps hold pointers to tokens; a token is taken as it is when it is stored, that is, callers do
  not write to a token after they have stored it.
\<close>

type_synonym tokenKey = "string \<times> Type"

record Storage =
  tokens :: "tokenKey \<rightharpoonup> Token"
  validationID :: "string \<rightharpoonup> tokenKey list"

definition memory_New :: Storage where
  "memory_New = \<lparr>tokens = Map.empty, validationID = Map.empty\<rparr>"

definition memory_Store :: "ctx \<Rightarrow> Storage \<Rightarrow> Token option \<Rightarrow> error option \<times> Storage" where
  "memory_Store c s t =
     (case c of
        Some err \<Rightarrow> (Some (Errorf ''context error'' err), s)
      | None \<Rightarrow>
         (case Validate t of
            Some err \<Rightarrow> (Some (Errorf ''token validation failed'' err), s)
          | None \<Rightarrow>
             (case t of
                None \<Rightarrow> (Some (Errorf ''token validation failed'' ErrTokenNil), s)
              | Some tk \<Rightarrow>
                  let key = (Value tk, Type tk);
                      s1 = s\<lparr>tokens := (tokens s)(key \<mapsto> tk)\<rparr>;
                      keys = (case validationID s1 (ValidationID tk) of
                                Some ks \<Rightarrow> ks | None \<Rightarrow> [])
                  in (None,
                      s1\<lparr>validationID :=
                           (validationID s1)(ValidationID tk \<mapsto> keys @ [key])\<rparr>))))"

text \<open>
  \<^verbatim>\<open>Retrieve\<close> of package memory builds its \<^verbatim>\<open>TokenExpiredError\<close> from \<^verbatim>\<open>TokenValue\<close> and
  \<^verbatim>\<open>ExpiredAt\<close> only; the field \<^verbatim>\<open>TokenType\<close> keeps Go's zero value, 0.
\<close>

definition memory_Retrieve ::
  "ctx \<Rightarrow> Time \<Rightarrow> Storage \<Rightarrow> string \<Rightarrow> Type \<Rightarrow> (error + Token) \<times> Storage" where
  "memory_Retrieve c now s tokenValue tokenType =
     (case c of
        Some err \<Rightarrow> (Inl (Errorf ''context error'' err), s)
      | None \<Rightarrow>
          let key = (tokenValue, tokenType) in
          (case tokens s key of
             None \<Rightarrow> (Inl ErrTokenNotFound, s)
           | Some t \<Rightarrow>
               if IsExpired now t
               then (Inl (TokenExpiredError tokenValue 0 (ValidUntil t)),
                     s\<lparr>tokens := (tokens s)(key := None)\<rparr>)
               else (Inr t, s)))"

text \<open>
  The loop of \<^verbatim>\<open>Delete\<close> keeps the keys \<open>k\<close> with
  \<^verbatim>\<open>k.value != key.value || k.typ != key.typ\<close>, in their order.
\<close>

definition removeKey :: "tokenKey \<Rightarrow> tokenKey list \<Rightarrow> tokenKey list" where
  "removeKey key keys = filter (\<lambda>k. fst k \<noteq> fst key \<or> snd k \<noteq> snd key) keys"

definition memory_Delete :: "ctx \<Rightarrow> Storage \<Rightarrow> string \<Rightarrow> Type \<Rightarrow> error option \<times> Storage" where
  "memory_Delete c s tokenValue tokenType =
     (case c of
        Some err \<Rightarrow> (Some (Errorf ''context error'' err), s)
      | None \<Rightarrow>
          let key = (tokenValue, tokenType) in
          (case tokens s key of
             None \<Rightarrow> (None, s)
           | Some t \<Rightarrow>
               let s1 = s\<lparr>tokens := (tokens s)(key := None)\<rparr> in
               (case validationID s1 (ValidationID t) of
                  None \<Rightarrow> (None, s1)
                | Some keys \<Rightarrow>
                    let newKeys = removeKey key keys in
                    if length newKeys > 0
                    then (None, s1\<lparr>validationID := (validationID s1)(ValidationID t \<mapsto> newKeys)\<rparr>)
                    else (None, s1\<lparr>validationID := (validationID s1)(ValidationID t := None)\<rparr>))))"

text \<open>The loop of \<^verbatim>\<open>DeleteByValidationID\<close>: \<^verbatim>\<open>s.tokens.Delete(key)\<close> for each key in turn.\<close>

fun deleteKeys :: "tokenKey list \<Rightarrow> (tokenKey \<rightharpoonup> Token) \<Rightarrow> (tokenKey \<rightharpoonup> Token)" where
  "deleteKeys [] m = m"
| "deleteKeys (key # keys) m = deleteKeys keys (m(key := None))"

definition memory_DeleteByValidationID :: "ctx \<Rightarrow> Storage \<Rightarrow> string \<Rightarrow> error option \<times> Storage" where
  "memory_DeleteByValidationID c s vid =
     (case c of
        Some err \<Rightarrow> (Some (Errorf ''context error'' err), s)
      | None \<Rightarrow>
          if vid = [] then (Some ErrEmptyValidationID, s)
          else
            (case validationID s vid of
               None \<Rightarrow> (None, s)
             | Some keys \<Rightarrow>
                 (None, s\<lparr>tokens := deleteKeys keys (tokens s),
                           validationID := (validationID s)(vid := None)\<rparr>)))"

section \<open>In-memory storage of package token (MemoryStorage)\<close>

text \<open>
  \<^verbatim>\<open>MemoryStorage\<close> has the same two maps.  It validates with \<^verbatim>\<open>validateToken\<close> and returns
  that error as it is, fills all three fields of \<^verbatim>\<open>TokenExpiredError\<close>, and its
  \<^verbatim>\<open>DeleteByValidationID\<close> looks the validation ID up without testing it for emptiness.
\<close>

definition NewMemoryStorage :: Storage where
  "NewMemoryStorage = \<lparr>tokens = Map.empty, validationID = Map.empty\<rparr>"

definition MemoryStorage_Store :: "ctx \<Rightarrow> Storage \<Rightarrow> Token option \<Rightarrow> error option \<times> Storage" where
  "MemoryStorage_Store c s token =
     (case c of
        Some err \<Rightarrow> (Some (Errorf ''context error'' err), s)
      | None \<Rightarrow>
         (case validateToken token of
            Some err \<Rightarrow> (Some err, s)
          | None \<Rightarrow>
             (case token of
                None \<Rightarrow> (Some ErrTokenNil, s)
              | Some tk \<Rightarrow>
                  let key = (Value tk, Type tk);
                      s1 = s\<lparr>tokens := (tokens s)(key \<mapsto> tk)\<rparr>;
                      keys = (case validationID s1 (ValidationID tk) of
                                Some ks \<Rightarrow> ks | None \<Rightarrow> [])
                  in (None,
                      s1\<lparr>validationID :=
                           (validationID s1)(ValidationID tk \<mapsto> keys @ [key])\<rparr>))))"

definition MemoryStorage_Retrieve ::
  "ctx \<Rightarrow> Time \<Rightarrow> Storage \<Rightarrow> string \<Rightarrow> Type \<Rightarrow> (error + Token) \<times> Storage" where
  "MemoryStorage_Retrieve c now s tokenValue tokenType =
     (case c of
        Some err \<Rightarrow> (Inl (Errorf ''context error'' err), s)
      | None \<Rightarrow>
          let key = (tokenValue, tokenType) in
          (case tokens s key of
             None \<Rightarrow> (Inl ErrTokenNotFound, s)
           | Some token \<Rightarrow>
               if IsExpired now token
               then (Inl (TokenExpiredError (Value token) (Type token) (ValidUntil token)),
                     s\<lparr>tokens := (tokens s)(key := None)\<rparr>)
               else (Inr token, s)))"

definition MemoryStorage_Delete ::
  "ctx \<Rightarrow> Storage \<Rightarrow> string \<Rightarrow> Type \<Rightarrow> error option \<times> Storage" where
  "MemoryStorage_Delete c s tokenValue tokenType =
     (case c of
        Some err \<Rightarrow> (Some (Errorf ''context error'' err), s)
      | None \<Rightarrow>
          let key = (tokenValue, tokenType) in
          (case tokens s key of
             None \<Rightarrow> (None, s)
           | Some token \<Rightarrow>
               let s1 = s\<lparr>tokens := (tokens s)(key := None)\<rparr> in
               (case validationID s1 (ValidationID token) of
                  None \<Rightarrow> (None, s1)
                | Some keys \<Rightarrow>
                    let newKeys = removeKey (tokenValue, tokenType) keys in
                    if length newKeys > 0
                    then (None, s1\<lparr>validationID :=
                                      (validationID s1)(ValidationID token \<mapsto> newKeys)\<rparr>)
                    else (None, s1\<lparr>validationID :=
                                      (validationID s1)(ValidationID token := None)\<rparr>))))"

definition MemoryStorage_DeleteByValidationID ::
  "ctx \<Rightarrow> Storage \<Rightarrow> string \<Rightarrow> error option \<times> Storage" where
  "MemoryStorage_DeleteByValidationID c s vid =
     (case c of
        Some err \<Rightarrow> (Some (Errorf ''context error'' err), s)
      | None \<Rightarrow>
          (case validationID s vid of
             None \<Rightarrow> (None, s)
           | Some keys \<Rightarrow>
               (None, s\<lparr>tokens := deleteKeys keys (tokens s),
                         validationID := (validationID s)(vid := None)\<rparr>)))"

section \<open>JSON documents of tokens\<close>

text \<open>
  The packages \<^verbatim>\<open>encoding/json\<close>, \<^verbatim>\<open>unicode/utf8\<close> and \<^verbatim>\<open>time\<close> are not code of this
  repository; this is the part of their documented behaviour the Redis-backed storages rely on.

  \<^verbatim>\<open>utf8.DecodeRuneInString\<close> reads a well-formed encoding of one to four bytes, or returns
  \<^verbatim>\<open>(RuneError, 1)\<close> when the first byte begins none.  \<open>rune_size s\<close> is the width of the encoding
  at the front of \<open>s\<close>, and 0 when there is none.  A Go string is a sequence of bytes, as \<open>string\<close>
  is; \<open>of_char\<close> is the value of a byte.
\<close>

definition byte_in :: "nat \<Rightarrow> nat \<Rightarrow> char \<Rightarrow> bool" where
  "byte_in lo hi b = (lo \<le> of_char b \<and> (of_char b :: nat) \<le> hi)"

fun rune_size :: "string \<Rightarrow> nat" where
  "rune_size [] = 0"
| "rune_size (b0 # rest) =
     (let x = (of_char b0 :: nat) in
      if x < 0x80 then 1
      else if x < 0xC2 then 0
      else if x < 0xE0 then
        (case rest of
           b1 # bs \<Rightarrow> if byte_in 0x80 0xBF b1 then 2 else 0
         | [] \<Rightarrow> 0)
      else if x < 0xF0 then
        (case rest of
           b1 # b2 # bs \<Rightarrow>
             if byte_in (if x = 0xE0 then 0xA0 else 0x80) (if x = 0xED then 0x9F else 0xBF) b1 \<and>
                byte_in 0x80 0xBF b2
             then 3 else 0
         | bs \<Rightarrow> 0)
      else if x < 0xF5 then
        (case rest of
           b1 # b2 # b3 # bs \<Rightarrow>
             if byte_in (if x = 0xF0 then 0x90 else 0x80) (if x = 0xF4 then 0x8F else 0xBF) b1 \<and>
                byte_in 0x80 0xBF b2 \<and> byte_in 0x80 0xBF b3
             then 4 else 0
         | bs \<Rightarrow> 0)
      else 0)"

text \<open>
  \<^verbatim>\<open>json.Marshal\<close> writes a string byte for byte (bytes it escapes are read back as they were),
  except that it writes the escape of U+FFFD for every byte at which \<^verbatim>\<open>DecodeRuneInString\<close> returns
  \<^verbatim>\<open>(RuneError, 1)\<close>; \<^verbatim>\<open>json.Unmarshal\<close> reads that as the three bytes of U+FFFD.
  \<open>json_string s\<close> is the string read back from the document of \<open>s\<close>; in \<open>coerce k s\<close> the first
  \<open>k\<close> bytes of \<open>s\<close> are the rest of an encoding whose first byte has been copied.
\<close>

definition replacement :: string where
  "replacement = [CHR 0xEF, CHR 0xBF, CHR 0xBD]"

fun coerce :: "nat \<Rightarrow> string \<Rightarrow> string" where
  "coerce k [] = []"
| "coerce k (b # bs) =
     (if 0 < k then b # coerce (k - 1) bs
      else case rune_size (b # bs) of
             0 \<Rightarrow> replacement @ coerce 0 bs
           | Suc n \<Rightarrow> b # coerce n bs)"

definition json_string :: "string \<Rightarrow> string" where
  "json_string s = coerce 0 s"

text \<open>
  \<^verbatim>\<open>Time.MarshalJSON\<close> fails when the year of the instant is outside \<open>[0, 9999]\<close>.  The zero
  instant is the first of January of the year 1, UTC; the year 0 has 366 days, and the years 1
  to 9999 have \<open>9999 * 365 + 2424 = 3652059\<close> days.  The instants of this theory are times in
  UTC: the location of a \<^verbatim>\<open>time.Time\<close>, by whose offset the year is read, is not part of an
  instant.  An instant is read back to the nanosecond.
\<close>

definition year_in_range :: "Time \<Rightarrow> bool" where
  "year_in_range t = (- (366 * 24 * Hour) \<le> t \<and> t < 3652059 * 24 * Hour)"

text \<open>
  \<^verbatim>\<open>json.Marshal\<close> of a token writes the fields in their order and fails when one of the two
  instants cannot be written.  A document is represented by the token \<^verbatim>\<open>json.Unmarshal\<close> reads
  from it, so \<^verbatim>\<open>json.Unmarshal\<close> returns what the document holds; the server holds no documents
  but those \<^verbatim>\<open>Store\<close> has written, so it does not fail.
\<close>

definition json_Marshal :: "Token \<Rightarrow> error + Token" where
  "json_Marshal t =
     (if year_in_range (CreatedAt t) \<and> year_in_range (ValidUntil t)
      then Inr (t\<lparr>Value := json_string (Value t), ValidationID := json_string (ValidationID t)\<rparr>)
      else Inl (ErrorString
             ''json: error calling MarshalJSON for type time.Time: Time.MarshalJSON: year outside of range [0,9999]''))"

definition json_Unmarshal :: "Token \<Rightarrow> error + Token" where
  "json_Unmarshal d = Inr d"

section \<open>The Redis server, as the storage code uses it\<close>

text \<open>
  \<^verbatim>\<open>fmt.Sprintf("%d", n)\<close>: the decimal digits of an integer, with a minus sign when negative.
\<close>

fun decimal :: "nat \<Rightarrow> string" where
  "decimal n =
     (if n < 10 then [''0123456789'' ! n]
      else decimal (n div 10) @ [''0123456789'' ! (n mod 10)])"

declare decimal.simps [simp del]

definition Sprintf_d :: "int \<Rightarrow> string" where
  "Sprintf_d n = (if n < 0 then CHR ''-'' # decimal (nat (- n)) else decimal (nat n))"

text \<open>The two key families: \<^verbatim>\<open>"token:%s:%d"\<close> and \<^verbatim>\<open>"validation:%s"\<close>.\<close>

definition token_key :: "string \<Rightarrow> Type \<Rightarrow> string" where
  "token_key tokenValue tokenType = ''token:'' @ tokenValue @ '':'' @ Sprintf_d tokenType"

definition validation_key :: "string \<Rightarrow> string" where
  "validation_key vid = ''validation:'' @ vid"

text \<open>
  The server and the client library are not code of this repository; this is the part of their
  documented behaviour the storage code relies on.  One keyspace maps a key to a string value or
  to a set, with an optional expiry.  A string value is the JSON document of a token.  A set is
  the list of its members, without repetitions.

  The server keeps time in milliseconds: its clock reads \<open>mstime now\<close> at the instant \<open>now\<close>, and
  the expiry of a key is a number of milliseconds.  A key is absent for every command once the
  clock reads more than its expiry.  The server counts from the Unix epoch and the instants of
  this theory from Go's zero instant; the two differ by a whole number of seconds, so rounding to
  seconds or milliseconds is the same for both, and the expiries here are counted from the zero
  instant as well.  Server and client read one clock.  When the server is unreachable every
  command fails and changes nothing.
\<close>

datatype redis_value = StringValue Token | SetValue "string list"

record redis =
  keyspace :: "string \<rightharpoonup> redis_value \<times> int option"
  unreachable :: bool

definition redis_empty :: redis where
  "redis_empty = \<lparr>keyspace = Map.empty, unreachable = False\<rparr>"

definition mstime :: "Time \<Rightarrow> int" where
  "mstime now = now div Millisecond"

definition lookup :: "redis \<Rightarrow> Time \<Rightarrow> string \<Rightarrow> (redis_value \<times> int option) option" where
  "lookup r now key =
     (case keyspace r key of
        None \<Rightarrow> None
      | Some (v, None) \<Rightarrow> Some (v, None)
      | Some (v, Some expiry) \<Rightarrow> if mstime now \<le> expiry then Some (v, Some expiry) else None)"

definition connection_error :: error where
  "connection_error = redis_Failure ''connection refused''"

definition wrong_type :: error where
  "wrong_type = redis_Failure ''WRONGTYPE''"

definition redis_Get :: "redis \<Rightarrow> Time \<Rightarrow> string \<Rightarrow> error + Token" where
  "redis_Get r now key =
     (if unreachable r then Inl connection_error
      else case lookup r now key of
             None \<Rightarrow> Inl redis_Nil
           | Some (StringValue d, e) \<Rightarrow> Inr d
           | Some (SetValue ms, e) \<Rightarrow> Inl wrong_type)"

text \<open>
  The client sends a duration as a whole number of milliseconds or seconds: \<^verbatim>\<open>formatMs\<close> and
  \<^verbatim>\<open>formatSec\<close> divide, dropping the remainder (Go's \<^verbatim>\<open>/\<close> rounds towards zero, \<open>quo\<close>), and send
  1 for a positive duration below the unit.
\<close>

definition quo :: "int \<Rightarrow> int \<Rightarrow> int" where
  "quo a b = sgn a * sgn b * (\<bar>a\<bar> div \<bar>b\<bar>)"

definition formatMs :: "Duration \<Rightarrow> int" where
  "formatMs dur = (if 0 < dur \<and> dur < Millisecond then 1 else quo dur Millisecond)"

definition formatSec :: "Duration \<Rightarrow> int" where
  "formatSec dur = (if 0 < dur \<and> dur < Second then 1 else quo dur Second)"

definition usePrecise :: "Duration \<Rightarrow> bool" where
  "usePrecise dur = (dur < Second \<or> dur mod Second \<noteq> 0)"

definition KeepTTL :: Duration where "KeepTTL = - 1"

text \<open>
  \<^verbatim>\<open>Set(key, data, expiration)\<close>: a positive expiration is sent as \<^verbatim>\<open>PX\<close> milliseconds when it is
  below a second or not a whole number of seconds, and as \<^verbatim>\<open>EX\<close> seconds otherwise, and the key
  expires that long after the reading of the server's clock; \<^verbatim>\<open>KeepTTL\<close> keeps the expiry the
  key has; any other expiration stores the key without expiry.
\<close>

definition redis_Set :: "redis \<Rightarrow> Time \<Rightarrow> string \<Rightarrow> Token \<Rightarrow> Duration \<Rightarrow> error option \<times> redis" where
  "redis_Set r now key d expiration =
     (if unreachable r then (Some connection_error, r)
      else
        let expiry =
              (if expiration > 0
               then Some (mstime now +
                            (if usePrecise expiration then formatMs expiration
                             else formatSec expiration * 1000))
               else if expiration = KeepTTL
               then (case lookup r now key of None \<Rightarrow> None | Some (v, e) \<Rightarrow> e)
               else None)
        in (None, r\<lparr>keyspace := (keyspace r)(key \<mapsto> (StringValue d, expiry))\<rparr>))"

definition redis_SAdd :: "redis \<Rightarrow> Time \<Rightarrow> string \<Rightarrow> string \<Rightarrow> error option \<times> redis" where
  "redis_SAdd r now key member =
     (if unreachable r then (Some connection_error, r)
      else case lookup r now key of
             None \<Rightarrow> (None, r\<lparr>keyspace := (keyspace r)(key \<mapsto> (SetValue [member], None))\<rparr>)
           | Some (StringValue d, e) \<Rightarrow> (Some wrong_type, r)
           | Some (SetValue ms, e) \<Rightarrow>
               (None, r\<lparr>keyspace :=
                          (keyspace r)(key \<mapsto>
                             (SetValue (if member \<in> set ms then ms else ms @ [member]), e))\<rparr>))"

text \<open>
  \<^verbatim>\<open>EXPIREAT\<close> and \<^verbatim>\<open>EXPIRE\<close> on a key the server holds: the key is removed when the new expiry is
  not after the reading of the server's clock, and gets that expiry otherwise.
\<close>

definition set_expiry :: "redis \<Rightarrow> Time \<Rightarrow> string \<Rightarrow> int \<Rightarrow> error option \<times> redis" where
  "set_expiry r now key expiry =
     (if unreachable r then (Some connection_error, r)
      else case lookup r now key of
             None \<Rightarrow> (None, r)
           | Some (v, e) \<Rightarrow>
               if expiry \<le> mstime now then (None, r\<lparr>keyspace := (keyspace r)(key := None)\<rparr>)
               else (None, r\<lparr>keyspace := (keyspace r)(key \<mapsto> (v, Some expiry))\<rparr>))"

text \<open>
  \<^verbatim>\<open>ExpireAt(key, tm)\<close> sends \<^verbatim>\<open>tm.Unix()\<close>, the whole seconds of the instant, and
  \<^verbatim>\<open>Expire(key, expiration)\<close> sends \<^verbatim>\<open>formatSec(expiration)\<close>, a number of seconds from the reading
  of the server's clock.
\<close>

definition redis_ExpireAt :: "redis \<Rightarrow> Time \<Rightarrow> string \<Rightarrow> Time \<Rightarrow> error option \<times> redis" where
  "redis_ExpireAt r now key tm = set_expiry r now key (tm div Second * 1000)"

definition redis_Expire :: "redis \<Rightarrow> Time \<Rightarrow> string \<Rightarrow> Duration \<Rightarrow> error option \<times> redis" where
  "redis_Expire r now key expiration =
     set_expiry r now key (mstime now + formatSec expiration * 1000)"

text \<open>\<^verbatim>\<open>SRem\<close>: a set that loses its last member is removed with its key.\<close>

definition redis_SRem :: "redis \<Rightarrow> Time \<Rightarrow> string \<Rightarrow> string \<Rightarrow> error option \<times> redis" where
  "redis_SRem r now key member =
     (if unreachable r then (Some connection_error, r)
      else case lookup r now key of
             None \<Rightarrow> (None, r)
           | Some (StringValue d, e) \<Rightarrow> (Some wrong_type, r)
           | Some (SetValue ms, e) \<Rightarrow>
               let ms' = filter (\<lambda>m. m \<noteq> member) ms in
               if ms' = [] then (None, r\<lparr>keyspace := (keyspace r)(key := None)\<rparr>)
               else (None, r\<lparr>keyspace := (keyspace r)(key \<mapsto> (SetValue ms', e))\<rparr>))"

definition redis_Del :: "redis \<Rightarrow> string \<Rightarrow> error option \<times> redis" where
  "redis_Del r key =
     (if unreachable r then (Some connection_error, r)
      else (None, r\<lparr>keyspace := (keyspace r)(key := None)\<rparr>))"

definition redis_SMembers :: "redis \<Rightarrow> Time \<Rightarrow> string \<Rightarrow> error + string list" where
  "redis_SMembers r now key =
     (if unreachable r then Inl connection_error
      else case lookup r now key of
             None \<Rightarrow> Inr []
           | Some (StringValue d, e) \<Rightarrow> Inl wrong_type
           | Some (SetValue ms, e) \<Rightarrow> Inr ms)"

text \<open>A pipeline of \<^verbatim>\<open>Del\<close> commands, executed in the order they were queued.\<close>

fun pipeline_Del :: "redis \<Rightarrow> string list \<Rightarrow> error option \<times> redis" where
  "pipeline_Del r [] = (if unreachable r then (Some connection_error, r) else (None, r))"
| "pipeline_Del r (key # keys) =
     (case redis_Del r key of
        (Some err, r') \<Rightarrow> (Some err, r')
      | (None, r') \<Rightarrow> pipeline_Del r' keys)"

section \<open>Redis-backed storage (package redis)\<close>

text \<open>
  \<^verbatim>\<open>Store\<close> tests the context, validates and marshals the token, compares \<open>ValidUntil\<close> with the
  clock, and then sends \<^verbatim>\<open>Set\<close>, \<^verbatim>\<open>SAdd\<close> and \<^verbatim>\<open>ExpireAt\<close>: the keys and the time-to-live are
  made from the token it was given, the value of the token key is the document.  \<^verbatim>\<open>Retrieve\<close>
  and \<^verbatim>\<open>Delete\<close> unmarshal the document the server returns.  Every operation reads the clock
  once, \<open>now\<close>, which is also the instant at which the server runs its commands.
\<close>

definition redis_Store :: "ctx \<Rightarrow> Time \<Rightarrow> redis \<Rightarrow> Token option \<Rightarrow> error option \<times> redis" where
  "redis_Store c now r t =
     (case c of
        Some err \<Rightarrow> (Some (Errorf ''context error'' err), r)
      | None \<Rightarrow>
         (case Validate t of
            Some err \<Rightarrow> (Some (Errorf ''token validation failed'' err), r)
          | None \<Rightarrow>
             (case t of
                None \<Rightarrow> (Some (Errorf ''token validation failed'' ErrTokenNil), r)
              | Some tk \<Rightarrow>
                 (case json_Marshal tk of
                    Inl err \<Rightarrow> (Some (Errorf ''failed to marshal token'' err), r)
                  | Inr data \<Rightarrow>
                      if ValidUntil tk < now then (Some ErrInvalidToken, r)
                      else
                        let ttl = Sub (ValidUntil tk) now;
                            key = token_key (Value tk) (Type tk)
                        in (case redis_Set r now key data ttl of
                              (Some err, r1) \<Rightarrow>
                                (Some (Errorf ''failed to store token in Redis'' err), r1)
                            | (None, r1) \<Rightarrow>
                                let validationKey = validation_key (ValidationID tk) in
                                (case redis_SAdd r1 now validationKey key of
                                   (Some err, r2) \<Rightarrow>
                                     (Some (Errorf ''failed to store validation ID index'' err), r2)
                                 | (None, r2) \<Rightarrow>
                                     (case redis_ExpireAt r2 now validationKey (ValidUntil tk) of
                                        (Some err, r3) \<Rightarrow>
                                          (Some (Errorf
                                             ''failed to set expiration on validation ID index'' err),
                                           r3)
                                      | (None, r3) \<Rightarrow> (None, r3))))))))"

definition redis_Retrieve ::
  "ctx \<Rightarrow> Time \<Rightarrow> redis \<Rightarrow> string \<Rightarrow> Type \<Rightarrow> (error + Token) \<times> redis" where
  "redis_Retrieve c now r tokenValue tokenType =
     (case c of
        Some err \<Rightarrow> (Inl (Errorf ''context error'' err), r)
      | None \<Rightarrow>
          let key = token_key tokenValue tokenType in
          (case redis_Get r now key of
             Inl err \<Rightarrow>
               if err = redis_Nil then (Inl ErrTokenNotFound, r)
               else (Inl (Errorf ''failed to retrieve token from Redis'' err), r)
           | Inr data \<Rightarrow>
               (case json_Unmarshal data of
                  Inl err \<Rightarrow> (Inl (Errorf ''failed to unmarshal token'' err), r)
                | Inr t \<Rightarrow>
                    if IsExpired now t
                    then (Inl (TokenExpiredError tokenValue tokenType (ValidUntil t)),
                          snd (redis_Del r key))
                    else (Inr t, r))))"

definition redis_Delete :: "ctx \<Rightarrow> Time \<Rightarrow> redis \<Rightarrow> string \<Rightarrow> Type \<Rightarrow> error option \<times> redis" where
  "redis_Delete c now r tokenValue tokenType =
     (case c of
        Some err \<Rightarrow> (Some (Errorf ''context error'' err), r)
      | None \<Rightarrow>
          let key = token_key tokenValue tokenType in
          (case redis_Get r now key of
             Inl err \<Rightarrow>
               if err = redis_Nil then (None, r)
               else (Some (Errorf ''failed to retrieve token for deletion'' err), r)
           | Inr data \<Rightarrow>
               (case json_Unmarshal data of
                  Inl err \<Rightarrow> (Some (Errorf ''failed to unmarshal token for deletion'' err), r)
                | Inr t \<Rightarrow>
                    let validationKey = validation_key (ValidationID t) in
                    (case redis_SRem r now validationKey key of
                       (Some err, r1) \<Rightarrow>
                         if err \<noteq> redis_Nil
                         then (Some (Errorf ''failed to remove token from validation index'' err),
                               r1)
                         else (case redis_Del r1 key of
                                 (Some err, r2) \<Rightarrow>
                                   if err \<noteq> redis_Nil
                                   then (Some (Errorf ''failed to delete token'' err), r2)
                                   else (None, r2)
                               | (None, r2) \<Rightarrow> (None, r2))
                     | (None, r1) \<Rightarrow>
                         (case redis_Del r1 key of
                            (Some err, r2) \<Rightarrow>
                              if err \<noteq> redis_Nil
                              then (Some (Errorf ''failed to delete token'' err), r2)
                              else (None, r2)
                          | (None, r2) \<Rightarrow> (None, r2))))))"

definition redis_DeleteByValidationID ::
  "ctx \<Rightarrow> Time \<Rightarrow> redis \<Rightarrow> string \<Rightarrow> error option \<times> redis" where
  "redis_DeleteByValidationID c now r vid =
     (case c of
        Some err \<Rightarrow> (Some (Errorf ''context error'' err), r)
      | None \<Rightarrow>
          if vid = [] then (Some ErrEmptyValidationID, r)
          else
            let validationKey = validation_key vid in
            (case redis_SMembers r now validationKey of
               Inl err \<Rightarrow>
                 if err = redis_Nil then (None, r)
                 else (Some (Errorf ''failed to get token keys for validation ID'' err), r)
             | Inr keys \<Rightarrow>
                 if length keys = 0 then (None, r)
                 else
                   (case pipeline_Del r (keys @ [validationKey]) of
                      (Some err, r1) \<Rightarrow>
                        (Some (Errorf ''failed to delete tokens by validation ID'' err), r1)
                    | (None, r1) \<Rightarrow> (None, r1))))"

section \<open>Redis-backed storage of package token (RedisStorage)\<close>

text \<open>
  \<^verbatim>\<open>RedisStorage\<close> validates with \<^verbatim>\<open>validateToken\<close>, marshals the token, rejects a
  time-to-live \<^verbatim>\<open>time.Until(token.ValidUntil) <= 0\<close>, gives the index the same time-to-live with
  \<^verbatim>\<open>Expire\<close>, and removes an expired token with its own \<^verbatim>\<open>Delete\<close>.
\<close>

definition RedisStorage_Store :: "ctx \<Rightarrow> Time \<Rightarrow> redis \<Rightarrow> Token option \<Rightarrow> error option \<times> redis" where
  "RedisStorage_Store c now r token =
     (case c of
        Some err \<Rightarrow> (Some (Errorf ''context error'' err), r)
      | None \<Rightarrow>
         (case validateToken token of
            Some err \<Rightarrow> (Some err, r)
          | None \<Rightarrow>
             (case token of
                None \<Rightarrow> (Some ErrTokenNil, r)
              | Some tk \<Rightarrow>
                  let key = token_key (Value tk) (Type tk) in
                  (case json_Marshal tk of
                     Inl err \<Rightarrow> (Some (Errorf ''failed to marshal token'' err), r)
                   | Inr tokenData \<Rightarrow>
                       let ttl = Until now (ValidUntil tk) in
                       if ttl \<le> 0 then (Some ErrInvalidToken, r)
                       else
                         (case redis_Set r now key tokenData ttl of
                            (Some err, r1) \<Rightarrow>
                              (Some (Errorf ''failed to store token in Redis'' err), r1)
                          | (None, r1) \<Rightarrow>
                              let indexKey = validation_key (ValidationID tk) in
                              (case redis_SAdd r1 now indexKey key of
                                 (Some err, r2) \<Rightarrow>
                                   (Some (Errorf ''failed to update validation index'' err), r2)
                               | (None, r2) \<Rightarrow>
                                   (case redis_Expire r2 now indexKey ttl of
                                      (Some err, r3) \<Rightarrow>
                                        (Some (Errorf
                                           ''failed to set expiration on validation index'' err),
                                         r3)
                                    | (None, r3) \<Rightarrow> (None, r3))))))))"

definition RedisStorage_Delete ::
  "ctx \<Rightarrow> Time \<Rightarrow> redis \<Rightarrow> string \<Rightarrow> Type \<Rightarrow> error option \<times> redis" where
  "RedisStorage_Delete c now r tokenValue tokenType =
     (case c of
        Some err \<Rightarrow> (Some (Errorf ''context error'' err), r)
      | None \<Rightarrow>
          let key = token_key tokenValue tokenType in
          (case redis_Get r now key of
             Inl err \<Rightarrow>
               if err = redis_Nil then (None, r)
               else (Some (Errorf ''failed to retrieve token for deletion'' err), r)
           | Inr data \<Rightarrow>
               (case json_Unmarshal data of
                  Inl err \<Rightarrow> (Some (Errorf ''failed to unmarshal token for deletion'' err), r)
                | Inr token \<Rightarrow>
                    let indexKey = validation_key (ValidationID token) in
                    (case redis_SRem r now indexKey key of
                       (Some err, r1) \<Rightarrow>
                         (Some (Errorf ''failed to update validation index on deletion'' err), r1)
                     | (None, r1) \<Rightarrow>
                         (case redis_Del r1 key of
                            (Some err, r2) \<Rightarrow> (Some (Errorf ''failed to delete token'' err), r2)
                          | (None, r2) \<Rightarrow> (None, r2))))))"

definition RedisStorage_Retrieve ::
  "ctx \<Rightarrow> Time \<Rightarrow> redis \<Rightarrow> string \<Rightarrow> Type \<Rightarrow> (error + Token) \<times> redis" where
  "RedisStorage_Retrieve c now r tokenValue tokenType =
     (case c of
        Some err \<Rightarrow> (Inl (Errorf ''context error'' err), r)
      | None \<Rightarrow>
          let key = token_key tokenValue tokenType in
          (case redis_Get r now key of
             Inl err \<Rightarrow>
               if err = redis_Nil then (Inl ErrTokenNotFound, r)
               else (Inl (Errorf ''failed to retrieve token from Redis'' err), r)
           | Inr data \<Rightarrow>
               (case json_Unmarshal data of
                  Inl err \<Rightarrow> (Inl (Errorf ''failed to unmarshal token'' err), r)
                | Inr token \<Rightarrow>
                    if now > ValidUntil token
                    then (Inl (TokenExpiredError tokenValue tokenType (ValidUntil token)),
                          snd (RedisStorage_Delete c now r tokenValue tokenType))
                    else (Inr token, r))))"

definition RedisStorage_DeleteByValidationID ::
  "ctx \<Rightarrow> Time \<Rightarrow> redis \<Rightarrow> string \<Rightarrow> error option \<times> redis" where
  "RedisStorage_DeleteByValidationID c now r vid =
     (case c of
        Some err \<Rightarrow> (Some (Errorf ''context error'' err), r)
      | None \<Rightarrow>
          if vid = [] then (Some ErrEmptyValidationID, r)
          else
            let indexKey = validation_key vid in
            (case redis_SMembers r now indexKey of
               Inl err \<Rightarrow> (Some (Errorf ''failed to retrieve tokens for validation ID'' err), r)
             | Inr keys \<Rightarrow>
                 if length keys = 0 then (None, r)
                 else
                   (case pipeline_Del r (keys @ [indexKey]) of
                      (Some err, r1) \<Rightarrow>
                        (Some (Errorf ''failed to delete tokens by validation ID'' err), r1)
                    | (None, r1) \<Rightarrow> (None, r1))))"

section \<open>Manager\<close>

text \<open>
  The \<^verbatim>\<open>Storage\<close> interface is a record of the four operations over the state of the backend;
  each takes the context and the clock reading the backend would take during the call.
\<close>

record 's StorageI =
  Store :: "ctx \<Rightarrow> Time \<Rightarrow> 's \<Rightarrow> Token option \<Rightarrow> error option \<times> 's"
  Retrieve :: "ctx \<Rightarrow> Time \<Rightarrow> 's \<Rightarrow> string \<Rightarrow> Type \<Rightarrow> (error + Token) \<times> 's"
  Delete :: "ctx \<Rightarrow> Time \<Rightarrow> 's \<Rightarrow> string \<Rightarrow> Type \<Rightarrow> error option \<times> 's"
  DeleteByValidationID :: "ctx \<Rightarrow> Time \<Rightarrow> 's \<Rightarrow> string \<Rightarrow> error option \<times> 's"

definition memory_Storage :: "Storage StorageI" where
  "memory_Storage =
     \<lparr>Store = (\<lambda>c now. memory_Store c),
      Retrieve = memory_Retrieve,
      Delete = (\<lambda>c now. memory_Delete c),
      DeleteByValidationID = (\<lambda>c now. memory_DeleteByValidationID c)\<rparr>"

definition MemoryStorage :: "Storage StorageI" where
  "MemoryStorage =
     \<lparr>Store = (\<lambda>c now. MemoryStorage_Store c),
      Retrieve = MemoryStorage_Retrieve,
      Delete = (\<lambda>c now. MemoryStorage_Delete c),
      DeleteByValidationID = (\<lambda>c now. MemoryStorage_DeleteByValidationID c)\<rparr>"

definition redis_Storage :: "redis StorageI" where
  "redis_Storage =
     \<lparr>Store = redis_Store, Retrieve = redis_Retrieve, Delete = redis_Delete,
      DeleteByValidationID = redis_DeleteByValidationID\<rparr>"

definition RedisStorage :: "redis StorageI" where
  "RedisStorage =
     \<lparr>Store = RedisStorage_Store, Retrieve = RedisStorage_Retrieve,
      Delete = RedisStorage_Delete,
      DeleteByValidationID = RedisStorage_DeleteByValidationID\<rparr>"

text \<open>The manager; its logger has no effect on what the operations return.\<close>

record 's Manager =
  generator :: Generator
  storage :: "'s StorageI"
  linkTokenTTL :: Duration
  codeTokenTTL :: Duration

datatype 's ManagerOption =
    WithStorage "'s StorageI"
  | WithManagerLogger
  | WithLinkTokenTTL Duration
  | WithCodeTokenTTL Duration
  | WithGenerator Generator

fun applyOption :: "'s Manager \<Rightarrow> 's ManagerOption \<Rightarrow> 's Manager" where
  "applyOption m (WithStorage st) = m\<lparr>storage := st\<rparr>"
| "applyOption m WithManagerLogger = m"
| "applyOption m (WithLinkTokenTTL ttl) = m\<lparr>linkTokenTTL := ttl\<rparr>"
| "applyOption m (WithCodeTokenTTL ttl) = m\<lparr>codeTokenTTL := ttl\<rparr>"
| "applyOption m (WithGenerator g) = m\<lparr>generator := g\<rparr>"

fun applyOptions :: "'s Manager \<Rightarrow> 's ManagerOption list \<Rightarrow> 's Manager" where
  "applyOptions m [] = m"
| "applyOptions m (opt # opts) = applyOptions (applyOption m opt) opts"

definition NewManager :: "'s StorageI \<Rightarrow> 's ManagerOption list \<Rightarrow> 's Manager" where
  "NewManager st opts =
     applyOptions
       \<lparr>generator = NewGenerator, storage = st,
        linkTokenTTL = 24 * Hour, codeTokenTTL = 10 * Minute\<rparr>
       opts"

fun isTTLOption :: "'s ManagerOption \<Rightarrow> bool" where
  "isTTLOption (WithLinkTokenTTL ttl) = True"
| "isTTLOption (WithCodeTokenTTL ttl) = True"
| "isTTLOption opt = False"

text \<open>
  \<^verbatim>\<open>createToken\<close>.  \<open>now\<close> is the clock reading of \<^verbatim>\<open>New\<close>, \<open>later\<close> the one the storage takes
  during \<^verbatim>\<open>Store\<close>, \<open>src\<close> the behaviour of the entropy source, \<open>s\<close> the state of the backend.
\<close>

definition createToken ::
  "'s Manager \<Rightarrow> ctx \<Rightarrow> entropy \<Rightarrow> Time \<Rightarrow> Time \<Rightarrow> 's \<Rightarrow> Type \<Rightarrow> string \<Rightarrow> Duration
     \<Rightarrow> Token go_result \<times> 's" where
  "createToken m c src now later s tokenType vid ttl =
     (case c of
        Some err \<Rightarrow> (Fails (Errorf ''context error'' err), s)
      | None \<Rightarrow>
          if vid = [] then (Fails ErrEmptyValidationID, s)
          else if ttl \<le> 0 then (Fails (ErrorString ''invalid TTL: must be positive duration''), s)
          else if tokenType \<noteq> TypeLink \<and> tokenType \<noteq> TypeCode
          then (Fails (ErrorString (''unsupported token type: '' @ Sprintf_d tokenType)), s)
          else
            (case (if tokenType = TypeLink then GenerateLinkToken (generator m) src
                   else GenerateCodeToken (generator m) src) of
               Panics p \<Rightarrow> (Panics p, s)
             | Fails err \<Rightarrow> (Fails (Errorf ''failed to generate token'' err), s)
             | Returns tokenValue \<Rightarrow>
                 let token = New now tokenValue tokenType vid ttl in
                 (case Store (storage m) c later s (Some token) of
                    (Some err, s') \<Rightarrow> (Fails (Errorf ''failed to store token'' err), s')
                  | (None, s') \<Rightarrow> (Returns token, s'))))"

definition CreateLinkToken ::
  "'s Manager \<Rightarrow> ctx \<Rightarrow> entropy \<Rightarrow> Time \<Rightarrow> Time \<Rightarrow> 's \<Rightarrow> string \<Rightarrow> Token go_result \<times> 's" where
  "CreateLinkToken m c src now later s vid =
     createToken m c src now later s TypeLink vid (linkTokenTTL m)"

definition CreateCodeToken ::
  "'s Manager \<Rightarrow> ctx \<Rightarrow> entropy \<Rightarrow> Time \<Rightarrow> Time \<Rightarrow> 's \<Rightarrow> string \<Rightarrow> Token go_result \<times> 's" where
  "CreateCodeToken m c src now later s vid =
     createToken m c src now later s TypeCode vid (codeTokenTTL m)"

definition CreateTokenWithTTL ::
  "'s Manager \<Rightarrow> ctx \<Rightarrow> entropy \<Rightarrow> Time \<Rightarrow> Time \<Rightarrow> 's \<Rightarrow> Type \<Rightarrow> string \<Rightarrow> Duration
     \<Rightarrow> Token go_result \<times> 's" where
  "CreateTokenWithTTL m c src now later s tokenType vid ttl =
     createToken m c src now later s tokenType vid ttl"

section \<open>Sequences of storage calls\<close>

datatype call =
    CallStore "Token option"
  | CallRetrieve string Type
  | CallDelete string Type
  | CallDeleteByValidationID string

text \<open>What a call returns: an error (or nil), and for \<^verbatim>\<open>Retrieve\<close> the token or the error.\<close>

datatype reply = Err "error option" | Got "error + Token"

text \<open>A call with the context it is given and the clock reading during it.\<close>

type_synonym invocation = "ctx \<times> Time \<times> call"

fun invoke :: "'s StorageI \<Rightarrow> 's \<Rightarrow> invocation \<Rightarrow> reply \<times> 's" where
  "invoke st s (c, now, CallStore t) = (let (e, s') = Store st c now s t in (Err e, s'))"
| "invoke st s (c, now, CallRetrieve v ty) =
     (let (res, s') = Retrieve st c now s v ty in (Got res, s'))"
| "invoke st s (c, now, CallDelete v ty) = (let (e, s') = Delete st c now s v ty in (Err e, s'))"
| "invoke st s (c, now, CallDeleteByValidationID vid) =
     (let (e, s') = DeleteByValidationID st c now s vid in (Err e, s'))"

text \<open>The replies of a sequence of calls, and the state it leaves.\<close>

fun run :: "'s StorageI \<Rightarrow> 's \<Rightarrow> invocation list \<Rightarrow> reply list \<times> 's" where
  "run st s [] = ([], s)"
| "run st s (i # is) =
     (let (rep, s') = invoke st s i; (reps, s'') = run st s' is in (rep # reps, s''))"

section \<open>Predicates on the in-memory storage\<close>

text \<open>The keys the index lists under a validation ID; none when it has no entry.\<close>


definition keysOf :: "Storage \<Rightarrow> string \<Rightarrow> tokenKey list" where
  "keysOf s vid = (case validationID s vid of None \<Rightarrow> [] | Some keys \<Rightarrow> keys)"

text \<open>
  The index is sound when the keys listed under a validation ID are distinct and each is the key
  of a token of the primary map that belongs to that validation ID; it is complete when every
  token of the primary map is listed under its validation ID.
\<close>

definition index_sound :: "Storage \<Rightarrow> bool" where
  "index_sound s =
     (\<forall>vid. distinct (keysOf s vid) \<and>
        (\<forall>k \<in> set (keysOf s vid). \<exists>t. tokens s k = Some t \<and> ValidationID t = vid))"

definition index_complete :: "Storage \<Rightarrow> bool" where
  "index_complete s =
     (\<forall>k t. tokens s k = Some t \<longrightarrow> k \<in> set (keysOf s (ValidationID t)))"

text \<open>
  A call is admissible in a state when it neither stores under a key the primary map already
  holds nor retrieves a token that has expired (the case in which \<^verbatim>\<open>Retrieve\<close> removes the
  token from the primary map).
\<close>

fun admissible :: "Storage \<Rightarrow> Time \<Rightarrow> call \<Rightarrow> bool" where
  "admissible s now (CallStore (Some t)) = (tokens s (Value t, Type t) = None)"
| "admissible s now (CallStore None) = True"
| "admissible s now (CallRetrieve v ty) =
     (case tokens s (v, ty) of None \<Rightarrow> True | Some t \<Rightarrow> \<not> IsExpired now t)"
| "admissible s now (CallDelete v ty) = True"
| "admissible s now (CallDeleteByValidationID vid) = True"

fun admissible_calls :: "Storage \<Rightarrow> invocation list \<Rightarrow> bool" where
  "admissible_calls s [] = True"
| "admissible_calls s ((c, now, call) # rest) =
     (admissible s now call \<and>
      admissible_calls (snd (invoke memory_Storage s (c, now, call))) rest)"

section \<open>Sequences of calls in which nothing expires\<close>




text \<open>
  An expiry outlasts the instants \<open>vs\<close> when the key is still there one second before one of
  them.
\<close>

definition outlasts :: "Time list \<Rightarrow> int \<Rightarrow> bool" where
  "outlasts vs expiry = (\<exists>v \<in> set vs. mstime (v - Second) \<le> expiry)"

text \<open>
  The in-memory storage \<open>m\<close> and the server \<open>r\<close> hold the same tokens and the same index: the
  server is reachable, a token key holds the token the primary map holds under that (value, kind)
  pair, and a validation key holds the set of the token keys listed under that validation ID;
  the \<open>ValidUntil\<close> of every token is one of \<open>vs\<close>, and the expiry of every key outlasts \<open>vs\<close>.
\<close>

definition corresponds :: "Time list \<Rightarrow> Storage \<Rightarrow> redis \<Rightarrow> bool" where
  "corresponds vs m r =
     (\<not> unreachable r \<and>
      (\<forall>v ty. case tokens m (v, ty) of
                 None \<Rightarrow> keyspace r (token_key v ty) = None
               | Some t \<Rightarrow>
                   \<exists>e. keyspace r (token_key v ty) = Some (StringValue t, Some e) \<and>
                       outlasts vs e) \<and>
      (\<forall>k t. tokens m k = Some t \<longrightarrow> ValidUntil t \<in> set vs) \<and>
      (\<forall>vid. (keysOf m vid = [] \<and> keyspace r (validation_key vid) = None) \<or>
             (\<exists>ms e. keyspace r (validation_key vid) = Some (SetValue ms, Some e) \<and>
                     outlasts vs e \<and> ms \<noteq> [] \<and>
                     set ms = (\<lambda>k. token_key (fst k) (snd k)) ` set (keysOf m vid))))"

section \<open>Properties of the generator\<close>

lemma code_of_bytes_map:
  "charset \<noteq> [] \<Longrightarrow>
   code_of_bytes charset bs = Inr (map (\<lambda>b. charset ! (unat b mod length charset)) bs)"
  by (induction bs) auto

lemma codeCharset_configure1: "codeCharset g \<noteq> [] \<Longrightarrow> codeCharset (configure1 g c) \<noteq> []"
  by (cases c) (auto simp: WithLinkTokenLength_def WithCodeTokenLength_def WithCodeCharset_def)

lemma codeCharset_configure: "codeCharset g \<noteq> [] \<Longrightarrow> codeCharset (configure g cs) \<noteq> []"
  by (induction cs arbitrary: g) (auto simp: codeCharset_configure1)

text \<open>
  Claim C9, as amended.  A generator with a code length \<open>M\<close> from 0 to the allocation limit
  \<^verbatim>\<open>maxAlloc\<close> and a non-empty charset \<open>C\<close> returns, for every sequence of bytes
  \<open>f 0, f 1, ...\<close> the entropy source delivers, a string of exactly \<open>M\<close> characters whose \<open>i\<close>-th
  character is \<open>C\<close> at index \<open>f i mod |C|\<close>; every character of the code is an element of \<open>C\<close>.
  (When the source itself fails the call returns that error.)
\<close>

theorem GenerateCodeToken_maps_bytes:
  assumes len: "codeTokenLength g = int M" and lim: "int M \<le> maxAlloc"
    and cs: "codeCharset g \<noteq> []"
  shows "\<exists>code. GenerateCodeToken g (EntropyBytes f) = Returns code \<and>
           length code = M \<and>
           (\<forall>i<M. code ! i = codeCharset g ! (unat (f i) mod length (codeCharset g))) \<and>
           set code \<subseteq> set (codeCharset g)"
proof -
  let ?C = "codeCharset g"
  let ?code = "map (\<lambda>b. ?C ! (unat b mod length ?C)) (map f [0..<M])"
  have run: "GenerateCodeToken g (EntropyBytes f) = Returns ?code"
    using len lim cs
    by (simp add: GenerateCodeToken_def makeslice_def rand_Read_def code_of_bytes_map)
  have pos: "0 < length ?C" using cs by simp
  have mem: "set ?code \<subseteq> set ?C"
    using pos by auto
  have nth: "\<forall>i<M. ?code ! i = ?C ! (unat (f i) mod length ?C)"
    by simp
  show ?thesis using run mem nth by (intro exI[of _ ?code]) simp
qed

theorem GenerateCodeToken_maps_bytes_witness:
  "codeTokenLength NewGenerator = int 4 \<and> int 4 \<le> maxAlloc \<and> codeCharset NewGenerator \<noteq> [] \<and>
   GenerateCodeToken NewGenerator (EntropyBytes (\<lambda>i. 255)) = Returns ''5555'' \<and>
   (\<exists>code. GenerateCodeToken NewGenerator (EntropyBytes (\<lambda>i. 255)) = Returns code \<and>
      length code = 4 \<and> set code \<subseteq> set (codeCharset NewGenerator))"
proof -
  have len: "codeTokenLength NewGenerator = int 4"
    by (simp add: NewGenerator_def DefaultCodeTokenLength_def)
  have cs: "codeCharset NewGenerator \<noteq> []"
    by (simp add: NewGenerator_def DefaultCodeCharset_def)
  have lim: "int 4 \<le> maxAlloc"
    by (simp add: maxAlloc_def)
  have run: "GenerateCodeToken NewGenerator (EntropyBytes (\<lambda>i. 255)) = Returns ''5555''"
    by (simp add: GenerateCodeToken_def makeslice_def maxAlloc_def NewGenerator_def
        DefaultCodeTokenLength_def DefaultCodeCharset_def DefaultLinkTokenLength_def rand_Read_def
        upt_rec)
  from GenerateCodeToken_maps_bytes [OF len lim cs, of "\<lambda>i. 255"]
  have "\<exists>code. GenerateCodeToken NewGenerator (EntropyBytes (\<lambda>i. 255)) = Returns code \<and>
      length code = 4 \<and> set code \<subseteq> set (codeCharset NewGenerator)"
    by blast
  with len lim cs run show ?thesis by blast
qed

text \<open>
  Claim C9 as stated fails: \<^verbatim>\<open>WithCodeTokenLength\<close> takes any length, and with the length
  \<open>2\<^sup>6\<^sup>2\<close> and the default charset \<^verbatim>\<open>GenerateCodeToken\<close> returns no string: \<^verbatim>\<open>make\<close> panics.
\<close>

theorem GenerateCodeToken_panics_beyond_limit:
  "let g = WithCodeTokenLength NewGenerator (2 ^ 62)
   in 0 \<le> codeTokenLength g \<and> codeCharset g \<noteq> [] \<and>
      GenerateCodeToken g (EntropyBytes (\<lambda>i. 0)) = Panics MakeSliceLenOutOfRange"
  by (simp add: Let_def WithCodeTokenLength_def NewGenerator_def DefaultCodeCharset_def
      GenerateCodeToken_def makeslice_def maxAlloc_def)

text \<open>
  Claim C10.  \<^verbatim>\<open>WithCodeCharset\<close> with the empty string leaves the generator as it is; so after
  any chain of \<^verbatim>\<open>WithLinkTokenLength\<close>, \<^verbatim>\<open>WithCodeTokenLength\<close> and \<^verbatim>\<open>WithCodeCharset\<close> calls
  on a generator made by \<^verbatim>\<open>NewGenerator\<close> the charset is non-empty, and \<^verbatim>\<open>GenerateCodeToken\<close>
  never panics with a division by zero, whatever the entropy source does.
\<close>

theorem charset_never_empty:
  "WithCodeCharset g [] = g \<and>
   codeCharset (configure NewGenerator calls) \<noteq> [] \<and>
   GenerateCodeToken (configure NewGenerator calls) src \<noteq> Panics IntegerDivideByZero"
proof -
  have ne: "codeCharset (configure NewGenerator calls) \<noteq> []"
    by (rule codeCharset_configure) (simp add: NewGenerator_def DefaultCodeCharset_def)
  have "GenerateCodeToken (configure NewGenerator calls) src \<noteq> Panics IntegerDivideByZero"
    using ne
    by (auto simp: GenerateCodeToken_def makeslice_def code_of_bytes_map split: sum.splits)
  then show ?thesis using ne by (simp add: WithCodeCharset_def)
qed

section \<open>Effects of the in-memory operations\<close>

lemma deleteKeys_apply: "deleteKeys keys m k = (if k \<in> set keys then None else m k)"
  by (induction keys arbitrary: m) auto

lemma removeKey_set: "set (removeKey key keys) = set keys - {key}"
  by (auto simp: removeKey_def prod_eq_iff)

lemma removeKey_distinct: "distinct keys \<Longrightarrow> distinct (removeKey key keys)"
  by (simp add: removeKey_def)

lemma memory_Store_cases:
  obtains (rejected) e where "memory_Store c s t = (Some e, s)"
  | (stored) tk s' where "t = Some tk" and "c = None" and "Validate (Some tk) = None"
      and "memory_Store c s t = (None, s')"
      and "tokens s' = (tokens s)((Value tk, Type tk) \<mapsto> tk)"
      and "\<And>vid. keysOf s' vid =
             (if vid = ValidationID tk then keysOf s vid @ [(Value tk, Type tk)]
              else keysOf s vid)"
proof (cases "c = None \<and> Validate t = None")
  case False
  then have "\<exists>e. memory_Store c s t = (Some e, s)"
    by (auto simp: memory_Store_def split: option.splits)
  then show ?thesis using rejected by blast
next
  case True
  then obtain tk where tk: "t = Some tk"
    by (cases t) (auto simp: Validate_def)
  let ?s' = "snd (memory_Store c s t)"
  have run: "memory_Store c s t = (None, ?s')"
    using True tk by (simp add: memory_Store_def Let_def)
  have tok: "tokens ?s' = (tokens s)((Value tk, Type tk) \<mapsto> tk)"
    using True tk by (simp add: memory_Store_def Let_def)
  have idx: "\<And>vid. keysOf ?s' vid =
             (if vid = ValidationID tk then keysOf s vid @ [(Value tk, Type tk)]
              else keysOf s vid)"
    using True tk by (simp add: memory_Store_def Let_def keysOf_def)
  show ?thesis using stored [OF tk _ _ run tok idx] True tk by simp
qed

lemma memory_Retrieve_cases:
  obtains (unchanged) res where "memory_Retrieve c now s v ty = (res, s)"
      and "c \<noteq> None \<or> tokens s (v, ty) = None \<or>
           (\<exists>t. tokens s (v, ty) = Some t \<and> \<not> IsExpired now t \<and> res = Inr t)"
  | (purged) t s' where "c = None" and "tokens s (v, ty) = Some t" and "IsExpired now t"
      and "memory_Retrieve c now s v ty = (Inl (TokenExpiredError v 0 (ValidUntil t)), s')"
      and "tokens s' = (tokens s)((v, ty) := None)"
      and "\<And>vid. keysOf s' vid = keysOf s vid"
proof (cases "c = None \<and> (\<exists>t. tokens s (v, ty) = Some t \<and> IsExpired now t)")
  case False
  then have "\<exists>res. memory_Retrieve c now s v ty = (res, s) \<and>
      (c \<noteq> None \<or> tokens s (v, ty) = None \<or>
       (\<exists>t. tokens s (v, ty) = Some t \<and> \<not> IsExpired now t \<and> res = Inr t))"
    by (auto simp: memory_Retrieve_def Let_def split: option.splits)
  then show ?thesis using unchanged by blast
next
  case True
  then obtain t where t: "tokens s (v, ty) = Some t" "IsExpired now t" and c: "c = None"
    by blast
  show ?thesis
    by (rule purged [OF c t, of "snd (memory_Retrieve c now s v ty)"])
       (simp_all add: memory_Retrieve_def Let_def c t keysOf_def)
qed

lemma memory_Delete_cases:
  obtains (unchanged) "memory_Delete c s v ty = (None, s)" and "c = None" and "tokens s (v, ty) = None"
  | (cancelled) e where "memory_Delete c s v ty = (Some e, s)" and "c \<noteq> None"
  | (deleted) t s' where "c = None" and "tokens s (v, ty) = Some t"
      and "memory_Delete c s v ty = (None, s')"
      and "tokens s' = (tokens s)((v, ty) := None)"
      and "\<And>vid. keysOf s' vid =
             (if vid = ValidationID t then removeKey (v, ty) (keysOf s vid) else keysOf s vid)"
proof (cases c)
  case (Some e)
  then show ?thesis using cancelled by (simp add: memory_Delete_def)
next
  case None
  show ?thesis
  proof (cases "tokens s (v, ty)")
    case no: None
    show ?thesis using unchanged None no by (simp add: memory_Delete_def)
  next
    case (Some t)
    let ?s' = "snd (memory_Delete c s v ty)"
    have run: "memory_Delete c s v ty = (None, ?s')"
      using None Some by (simp add: memory_Delete_def Let_def split: option.splits)
    have tok: "tokens ?s' = (tokens s)((v, ty) := None)"
      using None Some by (simp add: memory_Delete_def Let_def split: option.splits)
    have idx: "\<And>vid. keysOf ?s' vid =
             (if vid = ValidationID t then removeKey (v, ty) (keysOf s vid) else keysOf s vid)"
      using None Some
      by (auto simp: memory_Delete_def Let_def keysOf_def removeKey_def split: option.splits)
    show ?thesis using deleted [OF None Some run tok idx] .
  qed
qed

lemma memory_DeleteByValidationID_cases:
  obtains (refused) e where "memory_DeleteByValidationID c s vid = (Some e, s)"
      and "c \<noteq> None \<or> vid = []"
  | (deleted) s' where "c = None" and "vid \<noteq> []"
      and "memory_DeleteByValidationID c s vid = (None, s')"
      and "tokens s' = deleteKeys (keysOf s vid) (tokens s)"
      and "\<And>vid'. keysOf s' vid' = (if vid' = vid then [] else keysOf s vid')"
proof (cases "c = None \<and> vid \<noteq> []")
  case False
  then have "\<exists>e. memory_DeleteByValidationID c s vid = (Some e, s)"
    by (auto simp: memory_DeleteByValidationID_def split: option.splits)
  then show ?thesis using refused False by blast
next
  case True
  let ?s' = "snd (memory_DeleteByValidationID c s vid)"
  have run: "memory_DeleteByValidationID c s vid = (None, ?s')"
    using True by (simp add: memory_DeleteByValidationID_def split: option.splits)
  have tok: "tokens ?s' = deleteKeys (keysOf s vid) (tokens s)"
    using True by (simp add: memory_DeleteByValidationID_def keysOf_def split: option.splits)
  have idx: "\<And>vid'. keysOf ?s' vid' = (if vid' = vid then [] else keysOf s vid')"
    using True by (simp add: memory_DeleteByValidationID_def keysOf_def split: option.splits)
  show ?thesis using deleted [OF _ _ run tok idx] True by simp
qed

section \<open>Every stored token is indexed under its validation ID\<close>

lemma index_completeI:
  "(\<And>k t. tokens s k = Some t \<Longrightarrow> k \<in> set (keysOf s (ValidationID t))) \<Longrightarrow> index_complete s"
  unfolding index_complete_def by blast

lemma index_completeD:
  "index_complete s \<Longrightarrow> tokens s k = Some t \<Longrightarrow> k \<in> set (keysOf s (ValidationID t))"
  unfolding index_complete_def by blast

lemma index_complete_Store:
  assumes inv: "index_complete s"
  shows "index_complete (snd (memory_Store c s t))"
proof (cases rule: memory_Store_cases [of c s t])
  case (rejected e)
  then show ?thesis using inv by simp
next
  case (stored tk s')
  have "index_complete s'"
  proof (rule index_completeI)
    fix k u assume ku: "tokens s' k = Some u"
    show "k \<in> set (keysOf s' (ValidationID u))"
    proof (cases "k = (Value tk, Type tk)")
      case True
      then have "u = tk" using ku stored(5) by simp
      then show ?thesis using True stored(6) by simp
    next
      case False
      then have "tokens s k = Some u" using ku stored(5) by simp
      from index_completeD [OF inv this] show ?thesis using stored(6) by auto
    qed
  qed
  then show ?thesis using stored(4) by simp
qed

lemma index_complete_Retrieve:
  assumes inv: "index_complete s"
  shows "index_complete (snd (memory_Retrieve c now s v ty))"
proof (cases rule: memory_Retrieve_cases [of c now s v ty])
  case (unchanged res)
  then show ?thesis using inv by simp
next
  case (purged t s')
  have "index_complete s'"
  proof (rule index_completeI)
    fix k u assume ku: "tokens s' k = Some u"
    then have "tokens s k = Some u" using purged(5) by (simp split: if_splits)
    from index_completeD [OF inv this] show "k \<in> set (keysOf s' (ValidationID u))"
      using purged(6) by simp
  qed
  then show ?thesis using purged(4) by simp
qed

lemma index_complete_Delete:
  assumes inv: "index_complete s"
  shows "index_complete (snd (memory_Delete c s v ty))"
proof (cases rule: memory_Delete_cases [of c s v ty])
  case unchanged
  then show ?thesis using inv by simp
next
  case (cancelled e)
  then show ?thesis using inv by simp
next
  case (deleted t s')
  have "index_complete s'"
  proof (rule index_completeI)
    fix k u assume ku: "tokens s' k = Some u"
    then have ne: "k \<noteq> (v, ty)" and old: "tokens s k = Some u"
      using deleted(4) by (auto split: if_splits)
    from index_completeD [OF inv old] show "k \<in> set (keysOf s' (ValidationID u))"
      using deleted(5) ne by (auto simp: removeKey_set)
  qed
  then show ?thesis using deleted(3) by simp
qed

lemma index_complete_DeleteByValidationID:
  assumes inv: "index_complete s"
  shows "index_complete (snd (memory_DeleteByValidationID c s vid))"
proof (cases rule: memory_DeleteByValidationID_cases [of c s vid])
  case (refused e)
  then show ?thesis using inv by simp
next
  case (deleted s')
  have "index_complete s'"
  proof (rule index_completeI)
    fix k u assume ku: "tokens s' k = Some u"
    then have notin: "k \<notin> set (keysOf s vid)" and old: "tokens s k = Some u"
      using deleted(4) by (auto simp: deleteKeys_apply split: if_splits)
    have mem: "k \<in> set (keysOf s (ValidationID u))" by (rule index_completeD [OF inv old])
    then have "ValidationID u \<noteq> vid" using notin by auto
    then show "k \<in> set (keysOf s' (ValidationID u))"
      using deleted(5) mem by simp
  qed
  then show ?thesis using deleted(3) by simp
qed

lemma invoke_memory_Storage_snd:
  "snd (invoke memory_Storage s (c, now, call)) =
     (case call of
        CallStore t \<Rightarrow> snd (memory_Store c s t)
      | CallRetrieve v ty \<Rightarrow> snd (memory_Retrieve c now s v ty)
      | CallDelete v ty \<Rightarrow> snd (memory_Delete c s v ty)
      | CallDeleteByValidationID vid \<Rightarrow> snd (memory_DeleteByValidationID c s vid))"
  by (cases call) (simp_all add: memory_Storage_def split: prod.splits)

lemma run_snd_Cons: "snd (run st s (i # is)) = snd (run st (snd (invoke st s i)) is)"
  by (simp split: prod.splits)

lemma index_complete_invoke:
  assumes inv: "index_complete s"
  shows "index_complete (snd (invoke memory_Storage s i))"
proof -
  obtain c now call where i: "i = (c, now, call)" by (cases i) auto
  show ?thesis unfolding i invoke_memory_Storage_snd
    by (cases call)
       (simp_all add: index_complete_Store index_complete_Retrieve index_complete_Delete
          index_complete_DeleteByValidationID inv)
qed

lemma index_complete_run:
  "index_complete s \<Longrightarrow> index_complete (snd (run memory_Storage s calls))"
proof (induction calls arbitrary: s)
  case Nil
  then show ?case by simp
next
  case (Cons i calls)
  have "index_complete (snd (invoke memory_Storage s i))"
    using Cons.prems by (rule index_complete_invoke)
  from Cons.IH [OF this] show ?case
    by (simp only: run_snd_Cons)
qed

lemma index_complete_New: "index_complete memory_New"
  by (simp add: index_complete_def memory_New_def)

section \<open>Soundness of the index under admissible calls\<close>

lemma index_soundI:
  "(\<And>vid. distinct (keysOf s vid)) \<Longrightarrow>
   (\<And>vid k. k \<in> set (keysOf s vid) \<Longrightarrow> \<exists>t. tokens s k = Some t \<and> ValidationID t = vid) \<Longrightarrow>
   index_sound s"
  unfolding index_sound_def by blast

lemma index_sound_distinct: "index_sound s \<Longrightarrow> distinct (keysOf s vid)"
  unfolding index_sound_def by blast

lemma index_sound_token:
  "index_sound s \<Longrightarrow> k \<in> set (keysOf s vid) \<Longrightarrow> \<exists>t. tokens s k = Some t \<and> ValidationID t = vid"
  unfolding index_sound_def by blast

lemma index_sound_Store:
  assumes inv: "index_sound s" and adm: "admissible s now (CallStore t)"
  shows "index_sound (snd (memory_Store c s t))"
proof (cases rule: memory_Store_cases [of c s t])
  case (rejected e)
  then show ?thesis using inv by simp
next
  case (stored tk s')
  let ?key = "(Value tk, Type tk)"
  have fresh: "tokens s ?key = None" using adm stored(1) by simp
  have notin: "?key \<notin> set (keysOf s vid)" for vid
    using index_sound_token [OF inv, of ?key vid] fresh by auto
  have "index_sound s'"
  proof (rule index_soundI)
    fix vid show "distinct (keysOf s' vid)"
      using index_sound_distinct [OF inv, of vid] notin [of vid] stored(6) by auto
  next
    fix vid k assume k: "k \<in> set (keysOf s' vid)"
    show "\<exists>u. tokens s' k = Some u \<and> ValidationID u = vid"
    proof (cases "k = ?key")
      case True
      then have "vid = ValidationID tk" using k notin [of vid] stored(6) by (auto split: if_splits)
      then show ?thesis using True stored(5) by simp
    next
      case False
      then have "k \<in> set (keysOf s vid)" using k stored(6) by (auto split: if_splits)
      from index_sound_token [OF inv this] show ?thesis using False stored(5) by simp
    qed
  qed
  then show ?thesis using stored(4) by simp
qed

lemma index_sound_Retrieve:
  assumes inv: "index_sound s" and adm: "admissible s now (CallRetrieve v ty)"
  shows "index_sound (snd (memory_Retrieve c now s v ty))"
proof (cases rule: memory_Retrieve_cases [of c now s v ty])
  case (unchanged res)
  then show ?thesis using inv by simp
next
  case (purged t s')
  then have False using adm by simp
  then show ?thesis ..
qed

lemma index_sound_Delete:
  assumes inv: "index_sound s"
  shows "index_sound (snd (memory_Delete c s v ty))"
proof (cases rule: memory_Delete_cases [of c s v ty])
  case unchanged
  then show ?thesis using inv by simp
next
  case (cancelled e)
  then show ?thesis using inv by simp
next
  case (deleted t s')
  have "index_sound s'"
  proof (rule index_soundI)
    fix vid show "distinct (keysOf s' vid)"
      using index_sound_distinct [OF inv, of vid] deleted(5) by (auto simp: removeKey_distinct)
  next
    fix vid k assume k: "k \<in> set (keysOf s' vid)"
    then have old: "k \<in> set (keysOf s vid)"
      using deleted(5) by (auto simp: removeKey_set split: if_splits)
    from index_sound_token [OF inv old] obtain u where u: "tokens s k = Some u" "ValidationID u = vid"
      by blast
    have "k \<noteq> (v, ty)"
    proof
      assume eq: "k = (v, ty)"
      then have "u = t" using u(1) deleted(2) by simp
      then have "vid = ValidationID t" using u(2) by simp
      then show False using k eq deleted(5) by (simp add: removeKey_set)
    qed
    then show "\<exists>u. tokens s' k = Some u \<and> ValidationID u = vid"
      using u deleted(4) by simp
  qed
  then show ?thesis using deleted(3) by simp
qed

lemma index_sound_DeleteByValidationID:
  assumes inv: "index_sound s"
  shows "index_sound (snd (memory_DeleteByValidationID c s vid))"
proof (cases rule: memory_DeleteByValidationID_cases [of c s vid])
  case (refused e)
  then show ?thesis using inv by simp
next
  case (deleted s')
  have "index_sound s'"
  proof (rule index_soundI)
    fix vid' show "distinct (keysOf s' vid')"
      using index_sound_distinct [OF inv, of vid'] deleted(5) by simp
  next
    fix vid' k assume k: "k \<in> set (keysOf s' vid')"
    then have ne: "vid' \<noteq> vid" and old: "k \<in> set (keysOf s vid')"
      using deleted(5) by (auto split: if_splits)
    from index_sound_token [OF inv old] obtain u where u: "tokens s k = Some u" "ValidationID u = vid'"
      by blast
    have "k \<notin> set (keysOf s vid)"
      using index_sound_token [OF inv, of k vid] u ne by auto
    then show "\<exists>u. tokens s' k = Some u \<and> ValidationID u = vid'"
      using u deleted(4) by (simp add: deleteKeys_apply)
  qed
  then show ?thesis using deleted(3) by simp
qed

lemma index_sound_invoke:
  assumes inv: "index_sound s" and adm: "admissible s now call"
  shows "index_sound (snd (invoke memory_Storage s (c, now, call)))"
  unfolding invoke_memory_Storage_snd
  using inv adm
  by (cases call)
     (simp_all add: index_sound_Store index_sound_Retrieve index_sound_Delete
        index_sound_DeleteByValidationID del: admissible.simps)

lemma index_sound_New: "index_sound memory_New"
  by (simp add: index_sound_def memory_New_def keysOf_def)

lemma index_sound_run:
  assumes "index_sound s" and "admissible_calls s calls"
  shows "index_sound (snd (run memory_Storage s calls))"
  using assms
proof (induction calls arbitrary: s)
  case Nil
  then show ?case by simp
next
  case (Cons i calls)
  obtain c now call where i: "i = (c, now, call)" by (cases i) auto
  have adm: "admissible s now call"
    and rest: "admissible_calls (snd (invoke memory_Storage s i)) calls"
    using Cons.prems(2) i by simp_all
  have "index_sound (snd (invoke memory_Storage s i))"
    unfolding i using Cons.prems(1) adm by (rule index_sound_invoke)
  from Cons.IH [OF this rest] show ?case
    by (simp only: run_snd_Cons)
qed

section \<open>Properties of Store\<close>




section \<open>Properties of Retrieve\<close>

text \<open>
  What both in-memory implementations do with a token whose \<open>ValidUntil\<close> has passed: the call
  returns a \<^verbatim>\<open>TokenExpiredError\<close> with the value asked for and the instant of expiry, and the
  token is gone from the primary map; the index is left as it was.
\<close>

lemma memory_Retrieve_expired:
  assumes "tokens s (v, ty) = Some t" and "IsExpired now t"
  shows "\<exists>s'. memory_Retrieve None now s v ty = (Inl (TokenExpiredError v 0 (ValidUntil t)), s') \<and>
           tokens s' (v, ty) = None \<and> validationID s' = validationID s"
  using assms by (simp add: memory_Retrieve_def)

lemma MemoryStorage_Retrieve_expired:
  assumes "tokens s (v, ty) = Some t" and "IsExpired now t"
  shows "\<exists>s'. MemoryStorage_Retrieve None now s v ty =
                 (Inl (TokenExpiredError (Value t) (Type t) (ValidUntil t)), s') \<and>
           tokens s' (v, ty) = None \<and> validationID s' = validationID s"
  using assms by (simp add: MemoryStorage_Retrieve_def)

text \<open>
  Claim C3 fails on package memory.  A code token is stored and retrieved after its
  \<open>ValidUntil\<close>: the error of \<^verbatim>\<open>Storage.Retrieve\<close> carries the kind \<^verbatim>\<open>TypeLink\<close>, not the kind of
  the token, while \<^verbatim>\<open>MemoryStorage.Retrieve\<close> of package token carries \<^verbatim>\<open>TypeCode\<close>.
\<close>

theorem memory_Retrieve_expired_code_token:
  "let t = \<lparr>Value = ''1234'', Type = TypeCode, CreatedAt = 50, ValidUntil = 100,
            ValidationID = ''v1''\<rparr>;
       s = snd (memory_Store None memory_New (Some t))
   in fst (memory_Retrieve None 200 s ''1234'' TypeCode)
        = Inl (TokenExpiredError ''1234'' TypeLink 100) \<and>
      fst (MemoryStorage_Retrieve None 200 s ''1234'' TypeCode)
        = Inl (TokenExpiredError ''1234'' TypeCode 100) \<and>
      TypeLink \<noteq> TypeCode"
  by (simp add: memory_Store_def memory_New_def Validate_def memory_Retrieve_def
      MemoryStorage_Retrieve_def IsExpired_def TypeLink_def TypeCode_def Let_def)

section \<open>The index of the in-memory storage\<close>

text \<open>
  Claim C4, as amended.  After every sequence of \<^verbatim>\<open>Store\<close>, \<^verbatim>\<open>Retrieve\<close>, \<^verbatim>\<open>Delete\<close> and
  \<^verbatim>\<open>DeleteByValidationID\<close> calls on a new in-memory storage in which no \<^verbatim>\<open>Store\<close> uses a
  (value, kind) pair the primary map holds at that moment and no \<^verbatim>\<open>Retrieve\<close> meets an expired
  token, the keys listed under a validation ID are distinct and each is the key of a token of the
  primary map with that validation ID.
\<close>

theorem index_sound_after_admissible_calls:
  assumes "admissible_calls memory_New calls"
  shows "index_sound (snd (run memory_Storage memory_New calls))"
  using index_sound_New assms by (rule index_sound_run)

theorem index_sound_after_admissible_calls_witness:
  "let t1 = \<lparr>Value = ''abc'', Type = TypeLink, CreatedAt = 0, ValidUntil = 100,
             ValidationID = ''v1''\<rparr>;
       t2 = \<lparr>Value = ''1234'', Type = TypeCode, CreatedAt = 0, ValidUntil = 100,
             ValidationID = ''v1''\<rparr>;
       calls = [(None, 10, CallStore (Some t1)), (None, 20, CallStore (Some t2)),
                (None, 30, CallRetrieve ''abc'' TypeLink), (None, 40, CallDelete ''abc'' TypeLink)]
   in admissible_calls memory_New calls \<and>
      index_sound (snd (run memory_Storage memory_New calls)) \<and>
      validationID (snd (run memory_Storage memory_New calls)) ''v1'' = Some [(''1234'', TypeCode)]"
proof -
  let ?t1 = "\<lparr>Value = ''abc'', Type = TypeLink, CreatedAt = 0, ValidUntil = 100,
             ValidationID = ''v1''\<rparr>"
  let ?t2 = "\<lparr>Value = ''1234'', Type = TypeCode, CreatedAt = 0, ValidUntil = 100,
             ValidationID = ''v1''\<rparr>"
  let ?calls = "[(None, 10, CallStore (Some ?t1)), (None, 20, CallStore (Some ?t2)),
                (None, 30, CallRetrieve ''abc'' TypeLink), (None, 40, CallDelete ''abc'' TypeLink)]"
  have adm: "admissible_calls memory_New ?calls"
    by (simp add: Let_def memory_Storage_def memory_New_def memory_Store_def memory_Retrieve_def
      memory_Delete_def Validate_def IsExpired_def TypeLink_def TypeCode_def)
  have idx: "validationID (snd (run memory_Storage memory_New ?calls)) ''v1'' = Some [(''1234'', TypeCode)]"
    by (simp add: Let_def memory_Storage_def memory_New_def memory_Store_def memory_Retrieve_def
      memory_Delete_def Validate_def IsExpired_def TypeLink_def TypeCode_def removeKey_def)
  from index_sound_after_admissible_calls [OF adm] adm idx show ?thesis
    by (simp only: Let_def)
qed

text \<open>
  Claim C4 as stated fails: storing a token twice lists its key twice, and the removal of an
  expired token by \<^verbatim>\<open>Retrieve\<close> leaves its key in the index.
\<close>

theorem index_duplicates_and_dangling_keys:
  "let t = \<lparr>Value = ''abc'', Type = TypeLink, CreatedAt = 0, ValidUntil = 100,
            ValidationID = ''v1''\<rparr>;
       twice = snd (run memory_Storage memory_New
                 [(None, 10, CallStore (Some t)), (None, 20, CallStore (Some t))]);
       purged = snd (run memory_Storage memory_New
                 [(None, 10, CallStore (Some t)), (None, 200, CallRetrieve ''abc'' TypeLink)])
   in validationID twice ''v1'' = Some [(''abc'', TypeLink), (''abc'', TypeLink)] \<and>
      validationID purged ''v1'' = Some [(''abc'', TypeLink)] \<and>
      tokens purged (''abc'', TypeLink) = None"
  by (simp add: Let_def memory_Storage_def memory_New_def memory_Store_def memory_Retrieve_def
      Validate_def IsExpired_def TypeLink_def)

section \<open>Properties of DeleteByValidationID and Delete\<close>

text \<open>
  Claim C5, as amended.  After \<^verbatim>\<open>DeleteByValidationID\<close> has returned nil on an in-memory storage
  reached from a new one by any sequence of calls, \<^verbatim>\<open>Retrieve\<close> returns \<^verbatim>\<open>ErrTokenNotFound\<close> for
  every token that was stored under that validation ID, of either kind; a token stored under
  another validation ID is still in the primary map and \<^verbatim>\<open>Retrieve\<close> returns for it what it
  returned before, provided its key is not listed under the deleted validation ID.
\<close>

theorem DeleteByValidationID_removes_owner:
  assumes s: "s = snd (run memory_Storage memory_New calls)"
    and ok: "memory_DeleteByValidationID c s vid = (None, s')"
  shows "(\<forall>v ty t. tokens s (v, ty) = Some t \<and> ValidationID t = vid \<longrightarrow>
            fst (memory_Retrieve None now s' v ty) = Inl ErrTokenNotFound) \<and>
         (\<forall>v ty t. tokens s (v, ty) = Some t \<and> ValidationID t \<noteq> vid \<and>
                   (v, ty) \<notin> set (keysOf s vid) \<longrightarrow>
            tokens s' (v, ty) = Some t \<and>
            fst (memory_Retrieve None now s' v ty) = fst (memory_Retrieve None now s v ty))"
proof (cases rule: memory_DeleteByValidationID_cases [of c s vid])
  case (refused e)
  then show ?thesis using ok by simp
next
  case (deleted s'')
  then have s': "s'' = s'" using ok by simp
  have complete: "index_complete s"
    unfolding s using index_complete_New by (rule index_complete_run)
  have gone: "fst (memory_Retrieve None now s' v ty) = Inl ErrTokenNotFound"
    if "tokens s (v, ty) = Some t" "ValidationID t = vid" for v ty t
  proof -
    have "(v, ty) \<in> set (keysOf s vid)" using index_completeD [OF complete that(1)] that(2) by simp
    then have "tokens s' (v, ty) = None" using deleted(4) s' by (simp add: deleteKeys_apply)
    then show ?thesis by (simp add: memory_Retrieve_def)
  qed
  have kept: "tokens s' (v, ty) = Some t \<and>
       fst (memory_Retrieve None now s' v ty) = fst (memory_Retrieve None now s v ty)"
    if "tokens s (v, ty) = Some t" "(v, ty) \<notin> set (keysOf s vid)" for v ty t
  proof -
    have "tokens s' (v, ty) = Some t" using deleted(4) s' that by (simp add: deleteKeys_apply)
    then show ?thesis using that(1) by (simp add: memory_Retrieve_def Let_def)
  qed
  show ?thesis using gone kept by blast
qed

theorem DeleteByValidationID_removes_owner_witness:
  "let t1 = \<lparr>Value = ''abc'', Type = TypeLink, CreatedAt = 0, ValidUntil = 1000,
             ValidationID = ''v1''\<rparr>;
       t2 = \<lparr>Value = ''1234'', Type = TypeCode, CreatedAt = 0, ValidUntil = 1000,
             ValidationID = ''v1''\<rparr>;
       t3 = \<lparr>Value = ''xyz'', Type = TypeLink, CreatedAt = 0, ValidUntil = 1000,
             ValidationID = ''v2''\<rparr>;
       s = snd (run memory_Storage memory_New
                 [(None, 1, CallStore (Some t1)), (None, 2, CallStore (Some t2)),
                  (None, 3, CallStore (Some t3))]);
       s' = snd (memory_DeleteByValidationID None s ''v1'')
   in memory_DeleteByValidationID None s ''v1'' = (None, s') \<and>
      tokens s (''abc'', TypeLink) = Some t1 \<and>
      tokens s (''1234'', TypeCode) = Some t2 \<and>
      tokens s (''xyz'', TypeLink) = Some t3 \<and>
      (''xyz'', TypeLink) \<notin> set (keysOf s ''v1'') \<and>
      fst (memory_Retrieve None 50 s' ''abc'' TypeLink) = Inl ErrTokenNotFound \<and>
      fst (memory_Retrieve None 50 s' ''1234'' TypeCode) = Inl ErrTokenNotFound \<and>
      tokens s' (''xyz'', TypeLink) = Some t3 \<and>
      fst (memory_Retrieve None 50 s' ''xyz'' TypeLink) = Inr t3"
proof -
  let ?t1 = "\<lparr>Value = ''abc'', Type = TypeLink, CreatedAt = 0, ValidUntil = 1000,
             ValidationID = ''v1''\<rparr>"
  let ?t2 = "\<lparr>Value = ''1234'', Type = TypeCode, CreatedAt = 0, ValidUntil = 1000,
             ValidationID = ''v1''\<rparr>"
  let ?t3 = "\<lparr>Value = ''xyz'', Type = TypeLink, CreatedAt = 0, ValidUntil = 1000,
             ValidationID = ''v2''\<rparr>"
  let ?s = "snd (run memory_Storage memory_New
                 [(None, 1, CallStore (Some ?t1)), (None, 2, CallStore (Some ?t2)),
                  (None, 3, CallStore (Some ?t3))])"
  let ?s' = "snd (memory_DeleteByValidationID None ?s ''v1'')"
  note defs = Let_def memory_Storage_def memory_New_def memory_Store_def memory_Retrieve_def
      memory_DeleteByValidationID_def Validate_def IsExpired_def TypeCode_def TypeLink_def keysOf_def
  have ok: "memory_DeleteByValidationID None ?s ''v1'' = (None, ?s')"
    by (simp add: defs)
  have t1: "tokens ?s (''abc'', TypeLink) = Some ?t1" by (simp add: defs)
  have t2: "tokens ?s (''1234'', TypeCode) = Some ?t2" by (simp add: defs)
  have t3: "tokens ?s (''xyz'', TypeLink) = Some ?t3" by (simp add: defs)
  have k3: "(''xyz'', TypeLink) \<notin> set (keysOf ?s ''v1'')" by (simp add: defs)
  have before: "fst (memory_Retrieve None 50 ?s ''xyz'' TypeLink) = Inr ?t3" by (simp add: defs)
  note inst = DeleteByValidationID_removes_owner [OF refl ok, of 50]
  have o1: "ValidationID ?t1 = ''v1''" and o2: "ValidationID ?t2 = ''v1''"
    and o3: "ValidationID ?t3 \<noteq> ''v1''" by simp_all
  have g1: "fst (memory_Retrieve None 50 ?s' ''abc'' TypeLink) = Inl ErrTokenNotFound"
    using inst t1 o1 by blast
  have g2: "fst (memory_Retrieve None 50 ?s' ''1234'' TypeCode) = Inl ErrTokenNotFound"
    using inst t2 o2 by blast
  have "tokens ?s' (''xyz'', TypeLink) = Some ?t3 \<and>
        fst (memory_Retrieve None 50 ?s' ''xyz'' TypeLink)
          = fst (memory_Retrieve None 50 ?s ''xyz'' TypeLink)"
    using inst t3 k3 o3 by blast
  then have g3: "tokens ?s' (''xyz'', TypeLink) = Some ?t3 \<and>
            fst (memory_Retrieve None 50 ?s' ''xyz'' TypeLink) = Inr ?t3"
    using before by (simp only:)
  show ?thesis unfolding Let_def using ok t1 t2 t3 k3 g1 g2 g3 by blast
qed

text \<open>
  Claim C5 as stated fails: when two validation IDs were given the same (value, kind) pair, the
  deletion of the first removes the token of the second.
\<close>

theorem DeleteByValidationID_deletes_colliding_token:
  "let t1 = \<lparr>Value = ''1234'', Type = TypeCode, CreatedAt = 0, ValidUntil = 1000,
             ValidationID = ''A''\<rparr>;
       t2 = \<lparr>Value = ''1234'', Type = TypeCode, CreatedAt = 0, ValidUntil = 1000,
             ValidationID = ''B''\<rparr>;
       s = snd (run memory_Storage memory_New
                 [(None, 1, CallStore (Some t1)), (None, 2, CallStore (Some t2))])
   in tokens s (''1234'', TypeCode) = Some t2 \<and>
      fst (memory_Retrieve None 4 s ''1234'' TypeCode) = Inr t2 \<and>
      fst (memory_DeleteByValidationID None s ''A'') = None \<and>
      fst (memory_Retrieve None 4 (snd (memory_DeleteByValidationID None s ''A'')) ''1234'' TypeCode)
        = Inl ErrTokenNotFound"
  by (simp add: Let_def memory_Storage_def memory_New_def memory_Store_def memory_Retrieve_def
      memory_DeleteByValidationID_def Validate_def IsExpired_def TypeCode_def)

text \<open>
  An empty validation ID: the packages memory and redis and \<^verbatim>\<open>RedisStorage\<close> return
  \<^verbatim>\<open>ErrEmptyValidationID\<close> and leave the storage as it was.
\<close>

lemma DeleteByValidationID_empty_owner:
  "memory_DeleteByValidationID None s [] = (Some ErrEmptyValidationID, s) \<and>
   redis_DeleteByValidationID None now r [] = (Some ErrEmptyValidationID, r) \<and>
   RedisStorage_DeleteByValidationID None now r [] = (Some ErrEmptyValidationID, r)"
  by (simp add: memory_DeleteByValidationID_def redis_DeleteByValidationID_def
      RedisStorage_DeleteByValidationID_def)

text \<open>
  Claim C6 fails on \<^verbatim>\<open>MemoryStorage\<close> of package token: its \<^verbatim>\<open>DeleteByValidationID\<close> returns nil
  for the empty validation ID, where package memory returns \<^verbatim>\<open>ErrEmptyValidationID\<close>.
\<close>

theorem MemoryStorage_DeleteByValidationID_empty_owner:
  "MemoryStorage_DeleteByValidationID None NewMemoryStorage [] = (None, NewMemoryStorage) \<and>
   memory_DeleteByValidationID None memory_New [] = (Some ErrEmptyValidationID, memory_New)"
  by (simp add: MemoryStorage_DeleteByValidationID_def NewMemoryStorage_def
      memory_DeleteByValidationID_def)

text \<open>
  The index never holds an empty slice: \<^verbatim>\<open>Store\<close> appends to the slice it finds and \<^verbatim>\<open>Delete\<close>
  removes an entry whose slice would become empty.  So in a storage whose index is sound a
  validation ID with no stored token has no entry in the index.
\<close>

lemma entries_nonempty_invoke:
  assumes inv: "\<forall>vid. validationID s vid \<noteq> Some []"
  shows "\<forall>vid. validationID (snd (invoke memory_Storage s i)) vid \<noteq> Some []"
proof -
  obtain c now call where i: "i = (c, now, call)" by (cases i) auto
  show ?thesis
  proof (cases call)
    case (CallStore t)
    then show ?thesis using inv unfolding i invoke_memory_Storage_snd
      by (auto simp: memory_Store_def Let_def split: option.splits)
  next
    case (CallRetrieve v ty)
    then show ?thesis using inv unfolding i invoke_memory_Storage_snd
      by (auto simp: memory_Retrieve_def Let_def split: option.splits)
  next
    case (CallDelete v ty)
    then show ?thesis using inv unfolding i invoke_memory_Storage_snd
      by (auto simp: memory_Delete_def Let_def split: option.splits)
  next
    case (CallDeleteByValidationID vid)
    then show ?thesis using inv unfolding i invoke_memory_Storage_snd
      by (auto simp: memory_DeleteByValidationID_def Let_def split: option.splits)
  qed
qed

lemma entries_nonempty_run:
  "\<forall>vid. validationID s vid \<noteq> Some [] \<Longrightarrow>
   \<forall>vid. validationID (snd (run memory_Storage s calls)) vid \<noteq> Some []"
proof (induction calls arbitrary: s)
  case Nil
  then show ?case by simp
next
  case (Cons i calls)
  have "\<forall>vid. validationID (snd (invoke memory_Storage s i)) vid \<noteq> Some []"
    using Cons.prems by (rule entries_nonempty_invoke)
  from Cons.IH [OF this] show ?case
    unfolding run_snd_Cons .
qed

lemma no_tokens_no_entry:
  assumes adm: "admissible_calls memory_New calls"
    and s: "s = snd (run memory_Storage memory_New calls)"
    and none: "\<forall>k t. tokens s k = Some t \<longrightarrow> ValidationID t \<noteq> vid"
  shows "validationID s vid = None"
proof -
  have sound: "index_sound s"
    unfolding s using index_sound_New adm by (rule index_sound_run)
  have "keysOf s vid = []"
  proof (rule ccontr)
    assume "keysOf s vid \<noteq> []"
    then obtain k where "k \<in> set (keysOf s vid)" by (cases "keysOf s vid") auto
    from index_sound_token [OF sound this] show False using none by blast
  qed
  moreover have "validationID s vid \<noteq> Some []"
    unfolding s using entries_nonempty_run [of memory_New calls]
    by (simp add: memory_New_def)
  ultimately show ?thesis by (cases "validationID s vid") (simp_all add: keysOf_def)
qed

text \<open>
  Claim C7, as amended.  In the in-memory storage, with a live context, \<^verbatim>\<open>Delete\<close> of a key the
  primary map does not hold, and \<^verbatim>\<open>DeleteByValidationID\<close> of a non-empty validation ID the index
  has no entry for, return nil and leave the storage as it was.  The index has no entry for a
  validation ID with no stored token in every storage reached from a new one by admissible calls,
  that is, calls that neither store a (value, kind) pair the storage holds nor retrieve an expired
  token; there \<^verbatim>\<open>DeleteByValidationID\<close> of a non-empty validation ID with no stored token returns
  nil and leaves the storage as it was.  And in every state, with every context, a second call of
  either operation with the same arguments returns what the first returned and leaves the state
  the first left.
\<close>

theorem Delete_idempotent:
  "(tokens s (v, ty) = None \<longrightarrow> memory_Delete None s v ty = (None, s)) \<and>
   (vid \<noteq> [] \<and> validationID s vid = None \<longrightarrow>
      memory_DeleteByValidationID None s vid = (None, s)) \<and>
   (admissible_calls memory_New calls \<and> s = snd (run memory_Storage memory_New calls) \<and>
    vid \<noteq> [] \<and> (\<forall>k t. tokens s k = Some t \<longrightarrow> ValidationID t \<noteq> vid) \<longrightarrow>
      memory_DeleteByValidationID None s vid = (None, s)) \<and>
   (let (e1, s1) = memory_Delete c s v ty; (e2, s2) = memory_Delete c s1 v ty
    in e2 = e1 \<and> s2 = s1) \<and>
   (let (e1, s1) = memory_DeleteByValidationID c s vid;
        (e2, s2) = memory_DeleteByValidationID c s1 vid
    in e2 = e1 \<and> s2 = s1)"
proof -
  have a: "memory_Delete None s v ty = (None, s)" if "tokens s (v, ty) = None"
    using that by (simp add: memory_Delete_def)
  have b: "memory_DeleteByValidationID None s vid = (None, s)"
    if "vid \<noteq> []" "validationID s vid = None"
    using that by (simp add: memory_DeleteByValidationID_def)
  have c: "memory_DeleteByValidationID None s vid = (None, s)"
    if "admissible_calls memory_New calls" "s = snd (run memory_Storage memory_New calls)"
      "vid \<noteq> []" "\<forall>k t. tokens s k = Some t \<longrightarrow> ValidationID t \<noteq> vid"
    using b [OF that(3) no_tokens_no_entry [OF that(1,2,4)]] .
  have d: "(let (e1, s1) = memory_Delete c s v ty; (e2, s2) = memory_Delete c s1 v ty
    in e2 = e1 \<and> s2 = s1)"
    by (auto simp: memory_Delete_def Let_def split: option.splits)
  have e: "(let (e1, s1) = memory_DeleteByValidationID c s vid;
        (e2, s2) = memory_DeleteByValidationID c s1 vid
    in e2 = e1 \<and> s2 = s1)"
    by (auto simp: memory_DeleteByValidationID_def Let_def split: option.splits)
  show ?thesis using a b c d e by blast
qed

theorem Delete_idempotent_witness:
  "let t = \<lparr>Value = ''abc'', Type = TypeLink, CreatedAt = 0, ValidUntil = 1000,
            ValidationID = ''v1''\<rparr>;
       calls = [(None, 1, CallStore (Some t))];
       s = snd (run memory_Storage memory_New calls)
   in tokens s (''zzz'', TypeLink) = None \<and>
      memory_Delete None s ''zzz'' TypeLink = (None, s) \<and>
      validationID s ''nobody'' = None \<and>
      admissible_calls memory_New calls \<and>
      \<not> (\<exists>k u. tokens s k = Some u \<and> ValidationID u = ''nobody'') \<and>
      memory_DeleteByValidationID None s ''nobody'' = (None, s) \<and>
      (let (e1, s1) = memory_Delete None s ''abc'' TypeLink;
           (e2, s2) = memory_Delete None s1 ''abc'' TypeLink
       in e2 = e1 \<and> s2 = s1 \<and> tokens s1 (''abc'', TypeLink) = None) \<and>
      (let (e1, s1) = memory_DeleteByValidationID None s ''v1'';
           (e2, s2) = memory_DeleteByValidationID None s1 ''v1''
       in e2 = e1 \<and> s2 = s1 \<and> tokens s1 (''abc'', TypeLink) = None)"
proof -
  let ?t = "\<lparr>Value = ''abc'', Type = TypeLink, CreatedAt = 0, ValidUntil = 1000,
            ValidationID = ''v1''\<rparr>"
  let ?calls = "[(None, 1, CallStore (Some ?t))]"
  let ?s = "snd (run memory_Storage memory_New ?calls)"
  note defs = memory_Storage_def memory_New_def memory_Store_def Validate_def TypeLink_def Let_def
  have absent: "tokens ?s (''zzz'', TypeLink) = None" by (simp add: defs)
  have nobody: "validationID ?s ''nobody'' = None" "''nobody'' \<noteq> []" by (simp_all add: defs)
  have adm: "admissible_calls memory_New ?calls" by (simp add: defs)
  have none: "\<forall>k u. tokens ?s k = Some u \<longrightarrow> ValidationID u \<noteq> ''nobody''"
    by (auto simp: defs split: if_splits)
  note a = Delete_idempotent [where s = ?s and v = "''zzz''" and ty = TypeLink
      and vid = "''nobody''" and c = None and calls = ?calls]
  note b = Delete_idempotent [where s = ?s and v = "''abc''" and ty = TypeLink
      and vid = "''v1''" and c = None and calls = ?calls]
  have r1: "memory_Delete None ?s ''zzz'' TypeLink = (None, ?s)" using a absent by blast
  have r2: "memory_DeleteByValidationID None ?s ''nobody'' = (None, ?s)"
    using a adm none nobody(2) by blast
  have r3: "(let (e1, s1) = memory_Delete None ?s ''abc'' TypeLink;
           (e2, s2) = memory_Delete None s1 ''abc'' TypeLink
       in e2 = e1 \<and> s2 = s1)"
    using b by blast
  have r4: "(let (e1, s1) = memory_DeleteByValidationID None ?s ''v1'';
           (e2, s2) = memory_DeleteByValidationID None s1 ''v1''
       in e2 = e1 \<and> s2 = s1)"
    using b by blast
  have d1: "tokens (snd (memory_Delete None ?s ''abc'' TypeLink)) (''abc'', TypeLink) = None"
    by (simp add: defs memory_Delete_def removeKey_def)
  have d2: "tokens (snd (memory_DeleteByValidationID None ?s ''v1'')) (''abc'', TypeLink) = None"
    by (simp add: defs memory_DeleteByValidationID_def)
  have none': "\<not> (\<exists>k u. tokens ?s k = Some u \<and> ValidationID u = ''nobody'')"
    using none by blast
  show ?thesis unfolding Let_def using absent nobody(1) adm none' r1 r2 r3 r4 d1 d2
    by (simp add: Let_def split: prod.splits)
qed

text \<open>
  Claim C7 as stated fails.  After a token of validation ID \<open>A\<close> and then a token of validation ID
  \<open>B\<close> were stored under one (value, kind) pair, no stored token belongs to \<open>A\<close>, and yet
  \<^verbatim>\<open>DeleteByValidationID\<close> of \<open>A\<close> returns nil and removes the token of \<open>B\<close>.  And after
  \<^verbatim>\<open>Retrieve\<close> has removed the expired token of \<open>A\<close> from the primary map, no token is stored at
  all, and \<^verbatim>\<open>DeleteByValidationID\<close> of \<open>A\<close> returns nil and removes the entry the index still has
  for \<open>A\<close>.
\<close>

theorem DeleteByValidationID_of_owner_without_tokens:
  "let t1 = \<lparr>Value = ''1234'', Type = TypeCode, CreatedAt = 0, ValidUntil = 1000,
             ValidationID = ''A''\<rparr>;
       t2 = \<lparr>Value = ''1234'', Type = TypeCode, CreatedAt = 0, ValidUntil = 1000,
             ValidationID = ''B''\<rparr>;
       s = snd (run memory_Storage memory_New
                 [(None, 1, CallStore (Some t1)), (None, 2, CallStore (Some t2))]);
       (e, s') = memory_DeleteByValidationID None s ''A'';
       u = \<lparr>Value = ''abc'', Type = TypeLink, CreatedAt = 0, ValidUntil = 100,
            ValidationID = ''A''\<rparr>;
       p = snd (run memory_Storage memory_New
                 [(None, 1, CallStore (Some u)), (None, 200, CallRetrieve ''abc'' TypeLink)]);
       (e', p') = memory_DeleteByValidationID None p ''A''
   in \<not> (\<exists>k t. tokens s k = Some t \<and> ValidationID t = ''A'') \<and>
      tokens s (''1234'', TypeCode) = Some t2 \<and>
      e = None \<and> tokens s' (''1234'', TypeCode) = None \<and>
      \<not> (\<exists>k t. tokens p k = Some t) \<and>
      validationID p ''A'' = Some [(''abc'', TypeLink)] \<and>
      e' = None \<and> validationID p' ''A'' = None"
  by (auto simp: Let_def memory_Storage_def memory_New_def memory_Store_def memory_Retrieve_def
      memory_DeleteByValidationID_def Validate_def IsExpired_def TypeCode_def TypeLink_def
      split: if_splits)


section \<open>Properties of the manager\<close>

lemma applyOptions_TTLs:
  "\<forall>opt \<in> set opts. \<not> isTTLOption opt \<Longrightarrow>
   linkTokenTTL (applyOptions m opts) = linkTokenTTL m \<and>
   codeTokenTTL (applyOptions m opts) = codeTokenTTL m"
proof (induction opts arbitrary: m)
  case Nil
  then show ?case by simp
next
  case (Cons opt opts)
  have "\<not> isTTLOption opt" using Cons.prems by simp
  then have "linkTokenTTL (applyOption m opt) = linkTokenTTL m \<and>
             codeTokenTTL (applyOption m opt) = codeTokenTTL m"
    by (cases opt) simp_all
  moreover have "\<forall>opt \<in> set opts. \<not> isTTLOption opt" using Cons.prems by simp
  ultimately show ?case using Cons.IH [of "applyOption m opt"] by simp
qed

lemma NewManager_default_TTLs:
  "\<forall>opt \<in> set opts. \<not> isTTLOption opt \<Longrightarrow>
   linkTokenTTL (NewManager st opts) = 24 * Hour \<and> codeTokenTTL (NewManager st opts) = 10 * Minute"
  using applyOptions_TTLs [of opts] by (simp add: NewManager_def)

lemma createToken_Returns:
  assumes "createToken m c src now later s tokenType vid ttl = (Returns t, s')"
  shows "\<exists>tokenValue. t = New now tokenValue tokenType vid ttl \<and> c = None \<and> vid \<noteq> [] \<and> 0 < ttl"
  using assms
  by (auto simp: createToken_def Let_def split: option.splits if_splits go_result.splits prod.splits)

lemma EncodeToString_Nil_iff: "EncodeToString bs = [] \<longleftrightarrow> bs = []"
  by (cases bs rule: EncodeToString.cases) simp_all

lemma GenerateLinkToken_default:
  "\<exists>tokenValue. GenerateLinkToken NewGenerator (EntropyBytes f) = Returns tokenValue \<and> tokenValue \<noteq> []"
  by (simp add: GenerateLinkToken_def makeslice_def maxAlloc_def NewGenerator_def
      DefaultLinkTokenLength_def rand_Read_def EncodeToString_Nil_iff)

lemma GenerateCodeToken_default:
  "\<exists>tokenValue. GenerateCodeToken NewGenerator (EntropyBytes f) = Returns tokenValue \<and> tokenValue \<noteq> []"
  by (simp add: GenerateCodeToken_def makeslice_def maxAlloc_def NewGenerator_def
      DefaultCodeTokenLength_def DefaultCodeCharset_def rand_Read_def code_of_bytes_map)

lemma memory_Store_accepts:
  "Value t \<noteq> [] \<Longrightarrow> ValidationID t \<noteq> [] \<Longrightarrow> ValidUntil t \<noteq> 0 \<Longrightarrow>
   \<exists>s'. memory_Store None s (Some t) = (None, s')"
  by (simp add: memory_Store_def Validate_def Let_def)

lemma createToken_memory_succeeds:
  assumes gen: "(if tokenType = TypeLink then GenerateLinkToken (generator m) src
                 else GenerateCodeToken (generator m) src) = Returns tokenValue"
    and "tokenValue \<noteq> []" and "tokenType = TypeLink \<or> tokenType = TypeCode"
    and "vid \<noteq> []" and "0 < ttl" and "0 \<le> now" and "storage m = memory_Storage"
  shows "\<exists>s'. createToken m None src now later s tokenType vid ttl
           = (Returns (New now tokenValue tokenType vid ttl), s')"
proof -
  have "\<exists>s'. memory_Store None s (Some (New now tokenValue tokenType vid ttl)) = (None, s')"
    using assms by (intro memory_Store_accepts) (simp_all add: New_def)
  then obtain s' where "memory_Store None s (Some (New now tokenValue tokenType vid ttl)) = (None, s')"
    by blast
  then show ?thesis using assms
    by (auto simp: createToken_def Let_def memory_Storage_def)
qed


text \<open>
  Claim C8.  A manager made by \<^verbatim>\<open>NewManager\<close> with no TTL option among its options gives every
  token that \<^verbatim>\<open>CreateLinkToken\<close> returns the kind \<^verbatim>\<open>TypeLink\<close> and \<open>ValidUntil = CreatedAt + 24h\<close>,
  and every token that \<^verbatim>\<open>CreateCodeToken\<close> returns the kind \<^verbatim>\<open>TypeCode\<close> and
  \<open>ValidUntil = CreatedAt + 10min\<close>; a token is returned only for a non-empty validation ID.  A
  token created by any manager has \<open>ValidUntil = CreatedAt + ttl\<close> for the time-to-live used: the
  link or code TTL of the manager, or the one given to \<^verbatim>\<open>CreateTokenWithTTL\<close>.
  And the calls do return a token: with the in-memory storage, a live context, a working entropy
  source and a clock reading not before Go's zero instant, both return one for every non-empty
  validation ID.
\<close>

theorem Manager_default_TTLs:
  assumes noTTL: "\<forall>opt \<in> set opts. \<not> isTTLOption opt"
  shows "(\<forall>t s'. CreateLinkToken (NewManager st opts) c src now later s vid = (Returns t, s') \<longrightarrow>
            vid \<noteq> [] \<and> Type t = TypeLink \<and> ValidationID t = vid \<and>
            ValidUntil t = CreatedAt t + 24 * Hour) \<and>
         (\<forall>t s'. CreateCodeToken (NewManager st opts) c src now later s vid = (Returns t, s') \<longrightarrow>
            vid \<noteq> [] \<and> Type t = TypeCode \<and> ValidationID t = vid \<and>
            ValidUntil t = CreatedAt t + 10 * Minute) \<and>
         (\<forall>t s'. CreateLinkToken m c src now later s vid = (Returns t, s') \<longrightarrow>
            Type t = TypeLink \<and> ValidUntil t = CreatedAt t + linkTokenTTL m) \<and>
         (\<forall>t s'. CreateCodeToken m c src now later s vid = (Returns t, s') \<longrightarrow>
            Type t = TypeCode \<and> ValidUntil t = CreatedAt t + codeTokenTTL m) \<and>
         (\<forall>t s'. CreateTokenWithTTL m c src now later s tokenType vid ttl = (Returns t, s') \<longrightarrow>
            Type t = tokenType \<and> ValidUntil t = CreatedAt t + ttl) \<and>
         (vid \<noteq> [] \<and> 0 \<le> now \<longrightarrow>
            (\<exists>t s'. CreateLinkToken (NewManager memory_Storage []) None (EntropyBytes f) now later ms vid
                      = (Returns t, s')) \<and>
            (\<exists>t s'. CreateCodeToken (NewManager memory_Storage []) None (EntropyBytes f) now later ms vid
                      = (Returns t, s')))"
proof -
  note ttls = NewManager_default_TTLs [OF noTTL, of st]
  have link: "vid \<noteq> [] \<and> Type t = TypeLink \<and> ValidationID t = vid \<and>
              ValidUntil t = CreatedAt t + 24 * Hour"
    if "CreateLinkToken (NewManager st opts) c src now later s vid = (Returns t, s')" for t s'
    using createToken_Returns [OF that [unfolded CreateLinkToken_def]] ttls
    by (auto simp: New_def)
  have code: "vid \<noteq> [] \<and> Type t = TypeCode \<and> ValidationID t = vid \<and>
              ValidUntil t = CreatedAt t + 10 * Minute"
    if "CreateCodeToken (NewManager st opts) c src now later s vid = (Returns t, s')" for t s'
    using createToken_Returns [OF that [unfolded CreateCodeToken_def]] ttls
    by (auto simp: New_def)
  have any: "Type t = tokenType \<and> ValidUntil t = CreatedAt t + ttl"
    if "CreateTokenWithTTL m c src now later s tokenType vid ttl = (Returns t, s')" for t s'
    using createToken_Returns [OF that [unfolded CreateTokenWithTTL_def]]
    by (auto simp: New_def)
  have anylink: "Type t = TypeLink \<and> ValidUntil t = CreatedAt t + linkTokenTTL m"
    if "CreateLinkToken m c src now later s vid = (Returns t, s')" for t s'
    using createToken_Returns [OF that [unfolded CreateLinkToken_def]]
    by (auto simp: New_def)
  have anycode: "Type t = TypeCode \<and> ValidUntil t = CreatedAt t + codeTokenTTL m"
    if "CreateCodeToken m c src now later s vid = (Returns t, s')" for t s'
    using createToken_Returns [OF that [unfolded CreateCodeToken_def]]
    by (auto simp: New_def)
  have made: "(\<exists>t s'. CreateLinkToken (NewManager memory_Storage []) None (EntropyBytes f) now later ms vid
                      = (Returns t, s')) \<and>
            (\<exists>t s'. CreateCodeToken (NewManager memory_Storage []) None (EntropyBytes f) now later ms vid
                      = (Returns t, s'))"
    if vid: "vid \<noteq> []" and now: "0 \<le> now"
  proof -
    let ?m = "NewManager memory_Storage [] :: Storage Manager"
    have m: "generator ?m = NewGenerator" "storage ?m = memory_Storage"
      "linkTokenTTL ?m = 24 * Hour" "codeTokenTTL ?m = 10 * Minute"
      by (simp_all add: NewManager_def)
    have pos: "0 < 24 * Hour" "0 < 10 * Minute"
      by (simp_all add: Hour_def Minute_def Second_def Millisecond_def Microsecond_def Nanosecond_def)
    obtain lv where lv: "GenerateLinkToken NewGenerator (EntropyBytes f) = Returns lv" "lv \<noteq> []"
      using GenerateLinkToken_default by blast
    obtain cv where cv: "GenerateCodeToken NewGenerator (EntropyBytes f) = Returns cv" "cv \<noteq> []"
      using GenerateCodeToken_default by blast
    have "\<exists>s'. createToken ?m None (EntropyBytes f) now later ms TypeLink vid (24 * Hour)
             = (Returns (New now lv TypeLink vid (24 * Hour)), s')"
      by (rule createToken_memory_succeeds) (simp_all add: m lv vid now pos)
    moreover have "\<exists>s'. createToken ?m None (EntropyBytes f) now later ms TypeCode vid (10 * Minute)
             = (Returns (New now cv TypeCode vid (10 * Minute)), s')"
      by (rule createToken_memory_succeeds)
         (simp_all add: m cv vid now pos TypeLink_def TypeCode_def)
    ultimately show ?thesis
      unfolding CreateLinkToken_def CreateCodeToken_def m by blast
  qed
  show ?thesis using link code any anylink anycode made by blast
qed

theorem Manager_default_TTLs_witness:
  "\<not> isTTLOption (WithManagerLogger :: Storage ManagerOption) \<and>
   24 * Hour = 86400000000000 \<and> 10 * Minute = 600000000000 \<and>
   fst (CreateLinkToken (NewManager memory_Storage [WithManagerLogger]) None
          (EntropyBytes (\<lambda>i. 255)) 1000 1001 memory_New ''val-1'')
     = Returns \<lparr>Value = ''__________________________________________8'', Type = TypeLink,
                CreatedAt = 1000, ValidUntil = 86400000001000, ValidationID = ''val-1''\<rparr> \<and>
   fst (CreateCodeToken (NewManager memory_Storage [WithManagerLogger]) None
          (EntropyBytes (\<lambda>i. 255)) 1000 1001 memory_New ''val-1'')
     = Returns \<lparr>Value = ''5555'', Type = TypeCode,
                CreatedAt = 1000, ValidUntil = 600000001000, ValidationID = ''val-1''\<rparr> \<and>
   (\<exists>t s'. CreateCodeToken (NewManager memory_Storage []) None (EntropyBytes (\<lambda>i. 255)) 1000 1001
              memory_New ''val-1'' = (Returns t, s') \<and>
            Type t = TypeCode \<and> ValidUntil t = CreatedAt t + 10 * Minute)"
proof -
  note durations = Hour_def Minute_def Second_def Millisecond_def Microsecond_def Nanosecond_def
  note defs = CreateLinkToken_def CreateCodeToken_def createToken_def NewManager_def
    NewGenerator_def GenerateLinkToken_def GenerateCodeToken_def makeslice_def maxAlloc_def
    DefaultLinkTokenLength_def
    DefaultCodeTokenLength_def DefaultCodeCharset_def rand_Read_def memory_Storage_def
    memory_Store_def memory_New_def Validate_def New_def TypeLink_def TypeCode_def Let_def
    encodeURL_def upt_rec
  have no: "\<forall>opt \<in> set []. \<not> isTTLOption (opt :: Storage ManagerOption)" by simp
  note inst = Manager_default_TTLs [OF no, where st = memory_Storage and c = None
      and src = "EntropyBytes (\<lambda>i. 255)" and now = 1000 and later = 1001 and s = memory_New
      and vid = "''val-1''" and f = "\<lambda>i. 255" and ms = memory_New]
  have ex: "\<exists>t s'. CreateCodeToken (NewManager memory_Storage []) None (EntropyBytes (\<lambda>i. 255)) 1000 1001
              memory_New ''val-1'' = (Returns t, s')"
    using inst by simp
  then obtain t s' where run: "CreateCodeToken (NewManager memory_Storage []) None
      (EntropyBytes (\<lambda>i. 255)) 1000 1001 memory_New ''val-1'' = (Returns t, s')" by blast
  have props: "Type t = TypeCode \<and> ValidUntil t = CreatedAt t + 10 * Minute"
    using inst run by blast
  have a: "\<not> isTTLOption (WithManagerLogger :: Storage ManagerOption)" by simp
  have b: "24 * Hour = 86400000000000" "10 * Minute = 600000000000" by (simp_all add: durations)
  have l: "fst (CreateLinkToken (NewManager memory_Storage [WithManagerLogger]) None
          (EntropyBytes (\<lambda>i. 255)) 1000 1001 memory_New ''val-1'')
     = Returns \<lparr>Value = ''__________________________________________8'', Type = TypeLink,
                CreatedAt = 1000, ValidUntil = 86400000001000, ValidationID = ''val-1''\<rparr>"
    by (simp add: defs durations)
  have k: "fst (CreateCodeToken (NewManager memory_Storage [WithManagerLogger]) None
          (EntropyBytes (\<lambda>i. 255)) 1000 1001 memory_New ''val-1'')
     = Returns \<lparr>Value = ''5555'', Type = TypeCode,
                CreatedAt = 1000, ValidUntil = 600000001000, ValidationID = ''val-1''\<rparr>"
    by (simp add: defs durations)
  show ?thesis using a b l k run props by blast
qed

section \<open>The keys of the two families are distinct\<close>

lemma digits_distinct: "distinct ''0123456789''"
  by simp

lemma digit_inj: "a < 10 \<Longrightarrow> b < 10 \<Longrightarrow> ''0123456789'' ! a = ''0123456789'' ! b \<Longrightarrow> a = b"
  using nth_eq_iff_index_eq [OF digits_distinct, of a b] by simp

lemma decimal_not_Nil: "decimal n \<noteq> []"
  by (subst decimal.simps) simp

lemma decimal_digits: "set (decimal n) \<subseteq> set ''0123456789''"
proof (induction n rule: decimal.induct)
  case (1 n)
  have d: "''0123456789'' ! k \<in> set ''0123456789''" if "k < 10" for k
    using that nth_mem [of k "''0123456789''"] by simp
  show ?case
  proof (cases "n < 10")
    case True
    then show ?thesis using d [of n] by (subst decimal.simps) simp
  next
    case False
    have "n mod 10 < 10" by simp
    then show ?thesis using False 1 d [of "n mod 10"] by (subst decimal.simps) simp
  qed
qed

lemma decimal_inj: "decimal n = decimal m \<Longrightarrow> n = m"
proof (induction n arbitrary: m rule: decimal.induct)
  case (1 n)
  show ?case
  proof (cases "n < 10")
    case n: True
    show ?thesis
    proof (cases "m < 10")
      case True
      then show ?thesis using n "1.prems" digit_inj [of n m]
        by (simp add: decimal.simps [of n] decimal.simps [of m])
    next
      case False
      then show ?thesis using n "1.prems" decimal_not_Nil [of "m div 10"]
        by (simp add: decimal.simps [of n] decimal.simps [of m])
    qed
  next
    case n: False
    show ?thesis
    proof (cases "m < 10")
      case True
      then show ?thesis using n "1.prems" decimal_not_Nil [of "n div 10"]
        by (simp add: decimal.simps [of n] decimal.simps [of m])
    next
      case False
      then have eq: "decimal (n div 10) = decimal (m div 10)"
        and last: "''0123456789'' ! (n mod 10) = ''0123456789'' ! (m mod 10)"
        using n "1.prems" by (simp_all add: decimal.simps [of n] decimal.simps [of m])
      have "n div 10 = m div 10" using "1.IH" [OF n eq] .
      moreover have "n mod 10 = m mod 10" using digit_inj [OF _ _ last] by simp
      ultimately show ?thesis by (metis div_mult_mod_eq)
    qed
  qed
qed

lemma decimal_no_colon: "CHR '':'' \<notin> set (decimal n)"
proof
  assume "CHR '':'' \<in> set (decimal n)"
  then have "CHR '':'' \<in> set ''0123456789''" using decimal_digits [of n] by blast
  then show False by simp
qed

lemma Sprintf_d_no_colon: "CHR '':'' \<notin> set (Sprintf_d n)"
  by (simp add: Sprintf_d_def decimal_no_colon)

lemma decimal_no_minus: "decimal n \<noteq> CHR ''-'' # cs"
proof
  assume "decimal n = CHR ''-'' # cs"
  then have "CHR ''-'' \<in> set (decimal n)" by simp
  then have "CHR ''-'' \<in> set ''0123456789''" using decimal_digits [of n] by blast
  then show False by simp
qed

lemma Sprintf_d_inj:
  assumes eq: "Sprintf_d n = Sprintf_d m"
  shows "n = m"
proof (cases "n < 0")
  case n: True
  show ?thesis
  proof (cases "m < 0")
    case True
    then have "decimal (nat (- n)) = decimal (nat (- m))" using eq n by (simp add: Sprintf_d_def)
    then have "nat (- n) = nat (- m)" by (rule decimal_inj)
    then show ?thesis using n True by simp
  next
    case False
    then have "decimal (nat m) = CHR ''-'' # decimal (nat (- n))"
      using eq n by (simp add: Sprintf_d_def)
    then show ?thesis using decimal_no_minus by blast
  qed
next
  case n: False
  show ?thesis
  proof (cases "m < 0")
    case True
    then have "decimal (nat n) = CHR ''-'' # decimal (nat (- m))"
      using eq n by (simp add: Sprintf_d_def)
    then show ?thesis using decimal_no_minus by blast
  next
    case False
    then have "decimal (nat n) = decimal (nat m)" using eq n by (simp add: Sprintf_d_def)
    then have "nat n = nat m" by (rule decimal_inj)
    then show ?thesis using n False by simp
  qed
qed

lemma split_at_first:
  "a \<notin> set p \<Longrightarrow> a \<notin> set p' \<Longrightarrow> p @ a # q = p' @ a # q' \<Longrightarrow> p = p' \<and> q = q'"
proof (induction p arbitrary: p')
  case Nil
  then show ?case by (cases p') auto
next
  case (Cons x ps)
  then show ?case by (cases p') auto
qed

lemma split_at_last:
  assumes eq: "xs @ a # ys = xs' @ a # ys'" and n1: "a \<notin> set ys" and n2: "a \<notin> set ys'"
  shows "xs = xs' \<and> ys = ys'"
proof -
  have "rev (xs @ a # ys) = rev (xs' @ a # ys')"
    using eq by (rule arg_cong)
  then have r: "rev ys @ a # rev xs = rev ys' @ a # rev xs'"
    by (simp only: rev_append rev.simps append.simps append_assoc)
  have m1: "a \<notin> set (rev ys)" and m2: "a \<notin> set (rev ys')"
    using n1 n2 by simp_all
  have "rev ys = rev ys' \<and> rev xs = rev xs'"
    by (rule split_at_first [OF m1 m2 r])
  then show ?thesis by simp
qed

lemma token_key_inj:
  assumes "token_key v ty = token_key v' ty'"
  shows "v = v' \<and> ty = ty'"
proof -
  have "v @ '':'' @ Sprintf_d ty = v' @ '':'' @ Sprintf_d ty'"
    using assms unfolding token_key_def by (simp only: same_append_eq)
  then have "v @ CHR '':'' # Sprintf_d ty = v' @ CHR '':'' # Sprintf_d ty'"
    by (simp only: append.simps)
  then have "v = v' \<and> Sprintf_d ty = Sprintf_d ty'"
    by (rule split_at_last) (rule Sprintf_d_no_colon)+
  then show ?thesis using Sprintf_d_inj by blast
qed

lemma token_key_eq_iff [simp]: "token_key v ty = token_key v' ty' \<longleftrightarrow> v = v' \<and> ty = ty'"
  using token_key_inj by blast

lemma validation_key_eq_iff [simp]: "validation_key a = validation_key b \<longleftrightarrow> a = b"
  by (simp add: validation_key_def)

lemma token_key_not_validation_key [simp]:
  "token_key v ty \<noteq> validation_key vid" "validation_key vid \<noteq> token_key v ty"
  by (simp_all add: token_key_def validation_key_def)

section \<open>Rounding of expiry instants\<close>













lemma outlasts_mono: "outlasts vs e \<Longrightarrow> outlasts (v # vs) e"
  unfolding outlasts_def by auto


section \<open>Effects of the Redis-backed operations\<close>


lemma pipeline_Del_effect:
  "\<not> unreachable r \<Longrightarrow>
   \<exists>r'. pipeline_Del r keys = (None, r') \<and> \<not> unreachable r' \<and>
        (\<forall>k. keyspace r' k = (if k \<in> set keys then None else keyspace r k))"
proof (induction keys arbitrary: r)
  case Nil
  then show ?case by simp
next
  case (Cons key keys)
  let ?r1 = "r\<lparr>keyspace := (keyspace r)(key := None)\<rparr>"
  have del: "redis_Del r key = (None, ?r1)" using Cons.prems by (simp add: redis_Del_def)
  have "\<not> unreachable ?r1" using Cons.prems by simp
  from Cons.IH [OF this] obtain r' where
    r': "pipeline_Del ?r1 keys = (None, r')" "\<not> unreachable r'"
        "\<forall>k. keyspace r' k = (if k \<in> set keys then None else keyspace ?r1 k)"
    by blast
  have "pipeline_Del r (key # keys) = (None, r')" using del r'(1) by simp
  moreover have "\<forall>k. keyspace r' k = (if k \<in> set (key # keys) then None else keyspace r k)"
    using r'(3) by simp
  ultimately show ?case using r'(2) by blast
qed



section \<open>The in-memory storage and the Redis-backed storage, step by step\<close>

lemma corrD_up: "corresponds vs m r \<Longrightarrow> \<not> unreachable r"
  unfolding corresponds_def by blast

lemma corrD_absent:
  assumes "corresponds vs m r" and "tokens m (v, ty) = None"
  shows "keyspace r (token_key v ty) = None"
proof -
  have "case tokens m (v, ty) of
          None \<Rightarrow> keyspace r (token_key v ty) = None
        | Some t \<Rightarrow> \<exists>e. keyspace r (token_key v ty) = Some (StringValue t, Some e) \<and> outlasts vs e"
    using assms(1) unfolding corresponds_def by blast
  then show ?thesis using assms(2) by simp
qed

lemma corrD_token:
  assumes "corresponds vs m r" and "tokens m (v, ty) = Some t"
  shows "\<exists>e. keyspace r (token_key v ty) = Some (StringValue t, Some e) \<and> outlasts vs e"
proof -
  have "case tokens m (v, ty) of
          None \<Rightarrow> keyspace r (token_key v ty) = None
        | Some t \<Rightarrow> \<exists>e. keyspace r (token_key v ty) = Some (StringValue t, Some e) \<and> outlasts vs e"
    using assms(1) unfolding corresponds_def by blast
  then show ?thesis using assms(2) by simp
qed

lemma corrD_deadline: "corresponds vs m r \<Longrightarrow> tokens m k = Some t \<Longrightarrow> ValidUntil t \<in> set vs"
  unfolding corresponds_def by blast

lemma corrD_index:
  "corresponds vs m r \<Longrightarrow>
   (keysOf m vid = [] \<and> keyspace r (validation_key vid) = None) \<or>
   (\<exists>ms e. keyspace r (validation_key vid) = Some (SetValue ms, Some e) \<and>
           outlasts vs e \<and> ms \<noteq> [] \<and>
           set ms = (\<lambda>k. token_key (fst k) (snd k)) ` set (keysOf m vid))"
  unfolding corresponds_def by blast

lemma corrI:
  assumes "\<not> unreachable r"
    and "\<And>v ty. tokens m (v, ty) = None \<Longrightarrow> keyspace r (token_key v ty) = None"
    and "\<And>v ty t. tokens m (v, ty) = Some t \<Longrightarrow>
           \<exists>e. keyspace r (token_key v ty) = Some (StringValue t, Some e) \<and> outlasts vs e"
    and "\<And>k t. tokens m k = Some t \<Longrightarrow> ValidUntil t \<in> set vs"
    and "\<And>vid. (keysOf m vid = [] \<and> keyspace r (validation_key vid) = None) \<or>
           (\<exists>ms e. keyspace r (validation_key vid) = Some (SetValue ms, Some e) \<and>
                   outlasts vs e \<and> ms \<noteq> [] \<and>
                   set ms = (\<lambda>k. token_key (fst k) (snd k)) ` set (keysOf m vid))"
  shows "corresponds vs m r"
proof -
  have "case tokens m (v, ty) of
          None \<Rightarrow> keyspace r (token_key v ty) = None
        | Some t \<Rightarrow> \<exists>e. keyspace r (token_key v ty) = Some (StringValue t, Some e) \<and> outlasts vs e"
    for v ty
    using assms(2) [of v ty] assms(3) [of v ty] by (cases "tokens m (v, ty)") simp_all
  then show ?thesis
    unfolding corresponds_def using assms(1,4,5) by blast
qed




lemma corr_mono:
  assumes corr: "corresponds vs m r"
  shows "corresponds (v # vs) m r"
proof (rule corrI)
  show "\<not> unreachable r" by (rule corrD_up [OF corr])
next
  fix v' ty assume "tokens m (v', ty) = None"
  then show "keyspace r (token_key v' ty) = None" by (rule corrD_absent [OF corr])
next
  fix v' ty t assume "tokens m (v', ty) = Some t"
  from corrD_token [OF corr this]
  show "\<exists>e. keyspace r (token_key v' ty) = Some (StringValue t, Some e) \<and> outlasts (v # vs) e"
    using outlasts_mono by blast
next
  fix k t assume "tokens m k = Some t"
  from corrD_deadline [OF corr this] show "ValidUntil t \<in> set (v # vs)" by simp
next
  fix vid
  show "(keysOf m vid = [] \<and> keyspace r (validation_key vid) = None) \<or>
           (\<exists>ms e. keyspace r (validation_key vid) = Some (SetValue ms, Some e) \<and>
                   outlasts (v # vs) e \<and> ms \<noteq> [] \<and>
                   set ms = (\<lambda>k. token_key (fst k) (snd k)) ` set (keysOf m vid))"
    using corrD_index [OF corr, of vid] outlasts_mono by blast
qed












lemma json_string_abc: "json_string ''abc'' = ''abc''"
  by (simp add: json_string_def)


text \<open>
  Once a token has expired the two also differ without any refused \<^verbatim>\<open>Store\<close>: the server drops
  the expired key by itself, and \<^verbatim>\<open>Store\<close> gives the index of a validation ID the expiry of
  the token stored last, so that a token stored earlier with a later \<open>ValidUntil\<close> outlives its
  index entry and survives \<^verbatim>\<open>DeleteByValidationID\<close>.
\<close>

lemma memory_redis_differ_after_expiry:
  "let t1 = \<lparr>Value = ''abc'', Type = TypeLink, CreatedAt = 0, ValidUntil = 1000 * Second,
             ValidationID = ''v1''\<rparr>;
       t2 = \<lparr>Value = ''1234'', Type = TypeCode, CreatedAt = 0, ValidUntil = 100 * Second,
             ValidationID = ''v1''\<rparr>;
       calls = [(None, 10 * Second, CallStore (Some t1)), (None, 20 * Second, CallStore (Some t2)),
                (None, 150 * Second, CallRetrieve ''1234'' TypeCode),
                (None, 160 * Second, CallDeleteByValidationID ''v1''),
                (None, 170 * Second, CallRetrieve ''abc'' TypeLink)]
   in fst (run memory_Storage memory_New calls) =
        [Err None, Err None, Got (Inl (TokenExpiredError ''1234'' 0 (100 * Second))), Err None,
         Got (Inl ErrTokenNotFound)] \<and>
      fst (run redis_Storage redis_empty calls) =
        [Err None, Err None, Got (Inl ErrTokenNotFound), Err None, Got (Inr t1)]"
  by (simp add: Let_def memory_Storage_def redis_Storage_def memory_New_def redis_empty_def
      memory_Store_def memory_Retrieve_def memory_DeleteByValidationID_def
      redis_Store_def redis_Retrieve_def redis_DeleteByValidationID_def
      redis_Get_def redis_Set_def redis_SAdd_def redis_ExpireAt_def set_expiry_def
      redis_SMembers_def lookup_def mstime_def usePrecise_def formatMs_def formatSec_def quo_def
      json_Marshal_def json_Unmarshal_def json_string_def year_in_range_def
      Sub_def minDuration_def maxDuration_def Validate_def IsExpired_def TypeLink_def TypeCode_def
      Hour_def Minute_def Second_def Millisecond_def Microsecond_def Nanosecond_def)

text \<open>
  In the last second before \<open>ValidUntil\<close> they differ as well: the index key of the server
  expires at the whole second, the token key a millisecond after \<open>ValidUntil\<close> at the latest, so
  a \<^verbatim>\<open>DeleteByValidationID\<close> in between finds no index and leaves the token, which \<^verbatim>\<open>Retrieve\<close>
  then returns.
\<close>

lemma memory_redis_differ_in_last_second:
  "let t = \<lparr>Value = ''abc'', Type = TypeLink, CreatedAt = 0,
            ValidUntil = 1000 * Second + 500 * Millisecond, ValidationID = ''v1''\<rparr>;
       calls = [(None, 10 * Second, CallStore (Some t)),
                (None, 1000 * Second + 100 * Millisecond, CallDeleteByValidationID ''v1''),
                (None, 1000 * Second + 200 * Millisecond, CallRetrieve ''abc'' TypeLink)]
   in fst (run memory_Storage memory_New calls) =
        [Err None, Err None, Got (Inl ErrTokenNotFound)] \<and>
      fst (run redis_Storage redis_empty calls) =
        [Err None, Err None, Got (Inr t)]"
  by (simp add: Let_def memory_Storage_def redis_Storage_def memory_New_def redis_empty_def
      memory_Store_def memory_Retrieve_def memory_DeleteByValidationID_def
      redis_Store_def redis_Retrieve_def redis_DeleteByValidationID_def
      redis_Get_def redis_Set_def redis_SAdd_def redis_ExpireAt_def set_expiry_def
      redis_SMembers_def lookup_def mstime_def usePrecise_def formatMs_def formatSec_def quo_def
      json_Marshal_def json_Unmarshal_def json_string_def year_in_range_def
      Sub_def minDuration_def maxDuration_def Validate_def IsExpired_def TypeLink_def
      Hour_def Minute_def Second_def Millisecond_def Microsecond_def Nanosecond_def)

text \<open>
  And they differ on a token that is not read back from its JSON document as it is: for a value
  that is not UTF-8 the server returns the token with U+FFFD in its value, and a token created
  in the year before the year 0 is refused by \<^verbatim>\<open>json.Marshal\<close>.
\<close>

lemma memory_redis_differ_on_documents:
  "let t = \<lparr>Value = [CHR 0xFF], Type = TypeLink, CreatedAt = 0, ValidUntil = 1000 * Second,
            ValidationID = ''v1''\<rparr>;
       calls = [(None, 10 * Second, CallStore (Some t)),
                (None, 20 * Second, CallRetrieve [CHR 0xFF] TypeLink)];
       u = \<lparr>Value = ''abc'', Type = TypeLink, CreatedAt = - (400 * 24 * Hour),
            ValidUntil = 1000 * Second, ValidationID = ''v1''\<rparr>
   in fst (run memory_Storage memory_New calls) = [Err None, Got (Inr t)] \<and>
      fst (run redis_Storage redis_empty calls) =
        [Err None, Got (Inr (t\<lparr>Value := [CHR 0xEF, CHR 0xBF, CHR 0xBD]\<rparr>))] \<and>
      fst (memory_Store None memory_New (Some u)) = None \<and>
      (\<exists>err. fst (redis_Store None (10 * Second) redis_empty (Some u)) =
                Some (Errorf ''failed to marshal token'' err))"
  by (simp add: Let_def memory_Storage_def redis_Storage_def memory_New_def redis_empty_def
      memory_Store_def memory_Retrieve_def
      redis_Store_def redis_Retrieve_def
      redis_Get_def redis_Set_def redis_SAdd_def redis_ExpireAt_def set_expiry_def
      lookup_def mstime_def usePrecise_def formatMs_def formatSec_def quo_def
      json_Marshal_def json_Unmarshal_def json_string_def replacement_def year_in_range_def
      Sub_def minDuration_def maxDuration_def Validate_def IsExpired_def TypeLink_def
      Hour_def Minute_def Second_def Millisecond_def Microsecond_def Nanosecond_def)

text \<open>
  And they differ on a token whose \<open>ValidUntil\<close> is more than the greatest \<^verbatim>\<open>time.Duration\<close>
  after the call that stores it: the time-to-live of the token key is that duration, 292 years
  and some months, so the server drops a token that is valid for 300 years before it expires.
\<close>

lemma memory_redis_differ_on_long_life:
  "let t = \<lparr>Value = ''abc'', Type = TypeLink, CreatedAt = 0, ValidUntil = 300 * 365 * 24 * Hour,
            ValidationID = ''v1''\<rparr>;
       calls = [(None, 10 * Second, CallStore (Some t)),
                (None, 295 * 365 * 24 * Hour, CallRetrieve ''abc'' TypeLink)]
   in fst (run memory_Storage memory_New calls) = [Err None, Got (Inr t)] \<and>
      fst (run redis_Storage redis_empty calls) = [Err None, Got (Inl ErrTokenNotFound)]"
  by (simp add: Let_def memory_Storage_def redis_Storage_def memory_New_def redis_empty_def
      memory_Store_def memory_Retrieve_def
      redis_Store_def redis_Retrieve_def
      redis_Get_def redis_Set_def redis_SAdd_def redis_ExpireAt_def set_expiry_def
      lookup_def mstime_def usePrecise_def formatMs_def formatSec_def quo_def
      json_Marshal_def json_Unmarshal_def json_string_def year_in_range_def
      Sub_def minDuration_def maxDuration_def Validate_def IsExpired_def TypeLink_def
      Hour_def Minute_def Second_def Millisecond_def Microsecond_def Nanosecond_def)

section \<open>Idempotent deletion in the other implementations\<close>

text \<open>
  \<^verbatim>\<open>MemoryStorage\<close> of package token: the same as for package memory, except that the empty
  validation ID is treated as any other.
\<close>

lemma MemoryStorage_idempotent:
  "(tokens s (v, ty) = None \<longrightarrow> MemoryStorage_Delete None s v ty = (None, s)) \<and>
   (validationID s vid = None \<longrightarrow> MemoryStorage_DeleteByValidationID None s vid = (None, s)) \<and>
   (let (e1, s1) = MemoryStorage_Delete c s v ty; (e2, s2) = MemoryStorage_Delete c s1 v ty
    in e2 = e1 \<and> s2 = s1) \<and>
   (let (e1, s1) = MemoryStorage_DeleteByValidationID c s vid;
        (e2, s2) = MemoryStorage_DeleteByValidationID c s1 vid
    in e2 = e1 \<and> s2 = s1)"
  by (auto simp: MemoryStorage_Delete_def MemoryStorage_DeleteByValidationID_def Let_def
      split: option.splits)

text \<open>
  Package redis, with both calls at one clock reading: a key or validation ID the server does
  not hold gives nil and no change, and a second call returns what the first returned and leaves
  the server as the first left it.
\<close>

lemma redis_Delete_absent:
  "\<not> unreachable r \<Longrightarrow> lookup r now (token_key v ty) = None \<Longrightarrow>
   redis_Delete None now r v ty = (None, r)"
  by (simp add: redis_Delete_def json_Unmarshal_def redis_Get_def)

lemma redis_DeleteByValidationID_absent:
  "\<not> unreachable r \<Longrightarrow> vid \<noteq> [] \<Longrightarrow> lookup r now (validation_key vid) = None \<Longrightarrow>
   redis_DeleteByValidationID None now r vid = (None, r)"
  by (simp add: redis_DeleteByValidationID_def redis_SMembers_def)

lemma redis_SRem_result:
  "redis_SRem r now key member = (e, r') \<Longrightarrow>
   (e \<noteq> None \<and> r' = r) \<or> (e = None \<and> unreachable r' = unreachable r \<and> \<not> unreachable r)"
  by (auto simp: redis_SRem_def Let_def split: if_splits option.splits redis_value.splits prod.splits)

lemma redis_Delete_result:
  assumes "redis_Delete c now r v ty = (e, r')"
  shows "r' = r \<or> (c = None \<and> e = None \<and> \<not> unreachable r' \<and> keyspace r' (token_key v ty) = None)"
proof (cases "c = None \<and> \<not> unreachable r")
  case False
  then show ?thesis using assms
    by (auto simp: redis_Delete_def json_Unmarshal_def redis_Get_def Let_def split: option.splits if_splits)
next
  case True
  then have c: "c = None" and up: "\<not> unreachable r" by simp_all
  show ?thesis
  proof (cases "redis_Get r now (token_key v ty)")
    case (Inl err)
    then show ?thesis using assms c by (simp add: redis_Delete_def json_Unmarshal_def Let_def split: if_splits)
  next
    case (Inr t)
    obtain e1 r1 where srem: "redis_SRem r now (validation_key (ValidationID t)) (token_key v ty) = (e1, r1)"
      by (cases "redis_SRem r now (validation_key (ValidationID t)) (token_key v ty)") auto
    from redis_SRem_result [OF srem] show ?thesis
    proof
      assume a: "e1 \<noteq> None \<and> r1 = r"
      then obtain err where err: "e1 = Some err" by auto
      have "err \<noteq> redis_Nil" using srem err up
        by (auto simp: redis_SRem_def Let_def wrong_type_def
            split: if_splits option.splits redis_value.splits prod.splits)
      then show ?thesis using assms c Inr srem err a
        by (simp add: redis_Delete_def json_Unmarshal_def Let_def)
    next
      assume a: "e1 = None \<and> unreachable r1 = unreachable r \<and> \<not> unreachable r"
      then have "redis_Del r1 (token_key v ty) =
                   (None, r1\<lparr>keyspace := (keyspace r1)(token_key v ty := None)\<rparr>)"
        by (simp add: redis_Del_def)
      then show ?thesis using assms c Inr srem a
        by (auto simp: redis_Delete_def json_Unmarshal_def Let_def)
    qed
  qed
qed

lemma redis_Delete_twice:
  "(let (e1, r1) = redis_Delete c now r v ty; (e2, r2) = redis_Delete c now r1 v ty
    in e2 = e1 \<and> r2 = r1)"
proof -
  obtain e1 r1 where first: "redis_Delete c now r v ty = (e1, r1)"
    by (cases "redis_Delete c now r v ty") auto
  from redis_Delete_result [OF first] show ?thesis
  proof
    assume "r1 = r"
    then show ?thesis using first by simp
  next
    assume a: "c = None \<and> e1 = None \<and> \<not> unreachable r1 \<and> keyspace r1 (token_key v ty) = None"
    then have "lookup r1 now (token_key v ty) = None" by (simp add: lookup_def)
    then have "redis_Delete None now r1 v ty = (None, r1)"
      using a by (intro redis_Delete_absent) simp_all
    then show ?thesis using first a by simp
  qed
qed

lemma redis_DeleteByValidationID_twice:
  "(let (e1, r1) = redis_DeleteByValidationID c now r vid;
        (e2, r2) = redis_DeleteByValidationID c now r1 vid
    in e2 = e1 \<and> r2 = r1)"
proof (cases "c = None \<and> vid \<noteq> [] \<and> \<not> unreachable r")
  case False
  then show ?thesis
    by (auto simp: redis_DeleteByValidationID_def redis_SMembers_def Let_def split: option.splits)
next
  case True
  then have c: "c = None" and vid: "vid \<noteq> []" and up: "\<not> unreachable r" by simp_all
  let ?vk = "validation_key vid"
  show ?thesis
  proof (cases "redis_SMembers r now ?vk")
    case (Inl err)
    then have "err = wrong_type" using up
      by (auto simp: redis_SMembers_def split: option.splits redis_value.splits prod.splits)
    then show ?thesis using Inl c vid
      by (simp add: redis_DeleteByValidationID_def Let_def wrong_type_def)
  next
    case (Inr keys)
    show ?thesis
    proof (cases "keys = []")
      case True
      then show ?thesis using Inr c vid by (simp add: redis_DeleteByValidationID_def Let_def)
    next
      case False
      from pipeline_Del_effect [OF up, of "keys @ [?vk]"] obtain r' where
        r': "pipeline_Del r (keys @ [?vk]) = (None, r')" "\<not> unreachable r'"
            "\<forall>k. keyspace r' k = (if k \<in> set (keys @ [?vk]) then None else keyspace r k)"
        by blast
      have first: "redis_DeleteByValidationID c now r vid = (None, r')"
        using Inr False c vid r'(1) by (simp add: redis_DeleteByValidationID_def Let_def)
      have "keyspace r' ?vk = None" using r'(3) by simp
      then have "redis_SMembers r' now ?vk = Inr []"
        using r'(2) by (simp add: redis_SMembers_def lookup_def)
      then have "redis_DeleteByValidationID c now r' vid = (None, r')"
        using c vid by (simp add: redis_DeleteByValidationID_def Let_def)
      then show ?thesis using first by simp
    qed
  qed
qed

end
